theory Spec2Isabelle
  imports Main "HOL-Library.Word"
begin

section \<open>Data model of pa2.c\<close>

text \<open>
  The file under study is the first (complete) variant in \<^verbatim>\<open>src/pa2.c\<close>: the functions
  \<^verbatim>\<open>alloc_page\<close>, \<^verbatim>\<open>free_page\<close>, \<^verbatim>\<open>handle_page_fault\<close> and \<^verbatim>\<open>switch_process\<close>.
  The header \<^verbatim>\<open>vm.h\<close> is not part of the sources, so the constants it declares are
  arguments of the model: \<open>NP\<close> stands for \<^verbatim>\<open>NR_PTES_PER_PAGE\<close>, \<open>NF\<close> for
  \<^verbatim>\<open>NR_PAGEFRAMES\<close> and \<open>NO\<close> for the number of slots of \<^verbatim>\<open>outer_ptes\<close>.

  C arrays are lists and every index is checked: an access outside an array or through
  a \<^verbatim>\<open>NULL\<close> pointer is undefined behaviour in C and a \<open>fault\<close> in the model.
\<close>

datatype fault = NullPointer | OutOfBounds

text \<open>
  \<^verbatim>\<open>struct pte\<close>. The source compares \<^verbatim>\<open>private\<close> with 1 and assigns 0 and 1 to
  it, so it is kept as a number (\<open>private'\<close>, since \<open>private\<close> is a keyword of Isabelle).
\<close>

record pte =
  valid :: bool
  writable :: bool
  pfn :: nat
  private' :: nat

type_synonym pte_directory = "pte list"

text \<open>\<^verbatim>\<open>struct pagetable\<close>: \<open>None\<close> is a \<^verbatim>\<open>NULL\<close> slot of \<^verbatim>\<open>outer_ptes\<close>.\<close>

type_synonym pagetable = "pte_directory option list"

record process =
  pid :: nat
  pagetable :: pagetable

text \<open>
  The globals. Process objects live in \<open>heap\<close> and a pointer to a process is its
  index there; \<open>processes\<close> is the ready queue in insertion order; \<open>ptbr\<close> is the
  address of the process whose page table it points to. \<^verbatim>\<open>mapcounts\<close> is an array of
  \<^verbatim>\<open>unsigned int\<close>, so its increments and decrements wrap around.
\<close>

record vm =
  mapcounts :: "32 word list"
  heap :: "process list"
  processes :: "nat list"
  current :: nat
  ptbr :: nat

definition outer_ptes :: "vm \<Rightarrow> nat \<Rightarrow> pagetable" where
  "outer_ptes s a = pagetable (heap s ! a)"

definition ptes :: "vm \<Rightarrow> nat \<Rightarrow> nat \<Rightarrow> pte_directory" where
  "ptes s a i = (case outer_ptes s a ! i of None \<Rightarrow> [] | Some d \<Rightarrow> d)"

definition pte_at :: "vm \<Rightarrow> nat \<Rightarrow> nat \<Rightarrow> nat \<Rightarrow> pte" where
  "pte_at s a i j = ptes s a i ! j"

definition set_dir :: "vm \<Rightarrow> nat \<Rightarrow> nat \<Rightarrow> pte_directory \<Rightarrow> vm" where
  "set_dir s a i d =
     s\<lparr>heap := (heap s)[a := (heap s ! a)\<lparr>pagetable := (outer_ptes s a)[i := Some d]\<rparr>]\<rparr>"

definition upd_pte :: "vm \<Rightarrow> nat \<Rightarrow> nat \<Rightarrow> nat \<Rightarrow> (pte \<Rightarrow> pte) \<Rightarrow> vm" where
  "upd_pte s a i j f = set_dir s a i ((ptes s a i)[j := f (pte_at s a i j)])"

text \<open>
  The fault, if any, of evaluating the lvalue \<^verbatim>\<open>a->outer_ptes[i]->ptes[j]\<close>.
\<close>

definition pte_fault :: "vm \<Rightarrow> nat \<Rightarrow> nat \<Rightarrow> nat \<Rightarrow> fault option" where
  "pte_fault s a i j =
     (if length (heap s) \<le> a then Some NullPointer
      else if length (outer_ptes s a) \<le> i then Some OutOfBounds
      else (case outer_ptes s a ! i of
              None \<Rightarrow> Some NullPointer
            | Some d \<Rightarrow> if length d \<le> j then Some OutOfBounds else None))"

section \<open>The frame scan\<close>

text \<open>
  \<^verbatim>\<open>for (int i = 0;; i++) if (!mapcounts[i]) ...\<close>: the loop has no bound of its own.
  It ends at the first zero counter, or by reading past the end of the array.
\<close>

function first_free :: "nat \<Rightarrow> 32 word list \<Rightarrow> fault + nat" where
  "first_free i mc =
     (if i < length mc
      then (if mc ! i = 0 then Inr i else first_free (Suc i) mc)
      else Inl OutOfBounds)"
  by pat_completeness auto
termination
  by (relation "measure (\<lambda>(i, mc). length mc - i)") auto

declare first_free.simps [simp del]

section \<open>alloc\_page, free\_page, handle\_page\_fault\<close>

text \<open>
  \<open>junk\<close> is the content of the block that \<^verbatim>\<open>malloc(sizeof(struct pte_directory))\<close>
  returns: the source does not initialise it.
\<close>

definition alloc_page :: "nat \<Rightarrow> pte_directory \<Rightarrow> vm \<Rightarrow> nat \<Rightarrow> nat \<Rightarrow> fault + (vm \<times> nat)" where
  "alloc_page NP junk s vpn rw =
     (let pd_index = vpn div NP; pte_index = vpn mod NP; a = ptbr s in
      if length (heap s) \<le> a then Inl NullPointer
      else if length (outer_ptes s a) \<le> pd_index then Inl OutOfBounds
      else
        let s1 = (if outer_ptes s a ! pd_index = None then set_dir s a pd_index junk else s) in
        if length (ptes s1 a pd_index) \<le> pte_index then Inl OutOfBounds
        else
          let s2 = upd_pte s1 a pd_index pte_index (\<lambda>e. e\<lparr>valid := True\<rparr>);
              s3 = (if rw = 2 \<or> rw = 3
                    then upd_pte s2 a pd_index pte_index (\<lambda>e. e\<lparr>writable := True\<rparr>)
                    else upd_pte s2 a pd_index pte_index (\<lambda>e. e\<lparr>writable := False\<rparr>))
          in (case first_free 0 (mapcounts s3) of
                Inl f \<Rightarrow> Inl f
              | Inr i \<Rightarrow>
                  Inr ((upd_pte s3 a pd_index pte_index (\<lambda>e. e\<lparr>pfn := i\<rparr>))
                         \<lparr>mapcounts := (mapcounts s3)[i := mapcounts s3 ! i + 1]\<rparr>, i)))"

definition free_page :: "nat \<Rightarrow> vm \<Rightarrow> nat \<Rightarrow> fault + vm" where
  "free_page NP s vpn =
     (let pd_index = vpn div NP; pte_index = vpn mod NP; a = ptbr s in
      case pte_fault s a pd_index pte_index of
        Some f \<Rightarrow> Inl f
      | None \<Rightarrow>
          let s1 = upd_pte s a pd_index pte_index (\<lambda>e. e\<lparr>valid := False\<rparr>);
              s2 = upd_pte s1 a pd_index pte_index (\<lambda>e. e\<lparr>writable := False\<rparr>);
              s3 = upd_pte s2 a pd_index pte_index (\<lambda>e. e\<lparr>private' := 0\<rparr>);
              f = pfn (pte_at s3 a pd_index pte_index)
          in if length (mapcounts s3) \<le> f then Inl OutOfBounds
             else Inr (s3\<lparr>mapcounts := (mapcounts s3)[f := mapcounts s3 ! f - 1]\<rparr>))"

definition handle_page_fault :: "nat \<Rightarrow> vm \<Rightarrow> nat \<Rightarrow> nat \<Rightarrow> fault + (vm \<times> bool)" where
  "handle_page_fault NP s vpn rw =
     (let pd_index = vpn div NP; pte_index = vpn mod NP; a = ptbr s in
      case pte_fault s a pd_index pte_index of
        Some f \<Rightarrow> Inl f
      | None \<Rightarrow>
          if \<not> writable (pte_at s a pd_index pte_index) \<and> (rw = 2 \<or> rw = 3)
             \<and> private' (pte_at s a pd_index pte_index) = 1
          then
            let s1 = upd_pte s a pd_index pte_index (\<lambda>e. e\<lparr>writable := True\<rparr>);
                f = pfn (pte_at s1 a pd_index pte_index)
            in if length (mapcounts s1) \<le> f then Inl OutOfBounds
               else if 1 < mapcounts s1 ! f
               then
                 let s2 = s1\<lparr>mapcounts := (mapcounts s1)[f := mapcounts s1 ! f - 1]\<rparr>
                 in (case first_free 0 (mapcounts s2) of
                       Inl e \<Rightarrow> Inl e
                     | Inr i \<Rightarrow>
                         Inr ((upd_pte s2 a pd_index pte_index (\<lambda>e. e\<lparr>pfn := i\<rparr>))
                                \<lparr>mapcounts := (mapcounts s2)[i := mapcounts s2 ! i + 1]\<rparr>, True))
               else Inr (s1, True)
          else Inr (s, False))"

section \<open>switch\_process\<close>

text \<open>
  Both branches of \<^verbatim>\<open>switch_process\<close> run the same pair of loops,
  \<^verbatim>\<open>for (i = 0; i < NR_PAGEFRAMES / NR_PTES_PER_PAGE; i++) for (j = 0; j < NR_PTES_PER_PAGE; j++)\<close>,
  whose first statement leaves the inner loop when \<^verbatim>\<open>ptbr->outer_ptes[i]\<close> is
  \<^verbatim>\<open>NULL\<close>. \<open>walk_ptes\<close> is the inner loop from \<open>j\<close> on and \<open>walk_dirs\<close> the
  outer loop from \<open>i\<close> on; \<open>body\<close> is the rest of the loop body, \<open>p\<close> the process
  the loops write to.
\<close>

function walk_ptes ::
  "(vm \<Rightarrow> nat \<Rightarrow> nat \<Rightarrow> nat \<Rightarrow> fault + vm) \<Rightarrow> nat \<Rightarrow> vm \<Rightarrow> nat \<Rightarrow> nat \<Rightarrow> nat \<Rightarrow> fault + vm" where
  "walk_ptes body NP s p i j =
     (if j < NP
      then (if length (heap s) \<le> ptbr s then Inl NullPointer
            else if length (outer_ptes s (ptbr s)) \<le> i then Inl OutOfBounds
            else if outer_ptes s (ptbr s) ! i = None then Inr s
            else (case body s p i j of
                    Inl f \<Rightarrow> Inl f
                  | Inr s' \<Rightarrow> walk_ptes body NP s' p i (Suc j)))
      else Inr s)"
  by pat_completeness auto
termination
  by (relation "measure (\<lambda>(body, NP, s, p, i, j). NP - j)") auto

function walk_dirs ::
  "(vm \<Rightarrow> nat \<Rightarrow> nat \<Rightarrow> nat \<Rightarrow> fault + vm) \<Rightarrow> nat \<Rightarrow> nat \<Rightarrow> vm \<Rightarrow> nat \<Rightarrow> nat \<Rightarrow> fault + vm" where
  "walk_dirs body NP NF s p i =
     (if i < NF div NP
      then (case walk_ptes body NP s p i 0 of
              Inl f \<Rightarrow> Inl f
            | Inr s' \<Rightarrow> walk_dirs body NP NF s' p (Suc i))
      else Inr s)"
  by pat_completeness auto
termination
  by (relation "measure (\<lambda>(body, NP, NF, s, p, i). NF div NP - i)") auto

declare walk_ptes.simps [simp del] walk_dirs.simps [simp del]

text \<open>
  The body of the fork loops (lines 210 to 221 of the source). \<open>junk i\<close> is the content
  of the block that \<^verbatim>\<open>malloc\<close> returns for the directory of outer index \<open>i\<close>.
\<close>

definition fork_pte :: "(nat \<Rightarrow> pte_directory) \<Rightarrow> vm \<Rightarrow> nat \<Rightarrow> nat \<Rightarrow> nat \<Rightarrow> fault + vm" where
  "fork_pte junk s p i j =
     (let q = ptbr s in
      if length (heap s) \<le> p then Inl NullPointer
      else if length (outer_ptes s p) \<le> i then Inl OutOfBounds
      else
        let s1 = (if outer_ptes s p ! i = None then set_dir s p i (junk i) else s) in
        if length (ptes s1 q i) \<le> j \<or> length (ptes s1 p i) \<le> j then Inl OutOfBounds
        else
          let s2 = (if writable (pte_at s1 q i j) \<or> private' (pte_at s1 q i j) = 1
                    then upd_pte s1 p i j (\<lambda>e. e\<lparr>private' := 1\<rparr>) else s1);
              s3 = upd_pte s2 p i j (\<lambda>e. e\<lparr>valid := valid (pte_at s2 q i j)\<rparr>);
              s4 = upd_pte s3 p i j (\<lambda>e. e\<lparr>pfn := pfn (pte_at s3 q i j)\<rparr>)
          in if valid (pte_at s4 q i j)
             then
               (let f = pfn (pte_at s4 q i j) in
                if length (mapcounts s4) \<le> f then Inl OutOfBounds
                else Inr (upd_pte (s4\<lparr>mapcounts := (mapcounts s4)[f := mapcounts s4 ! f + 1]\<rparr>)
                            p i j (\<lambda>e. e\<lparr>writable := False\<rparr>)))
             else Inr (upd_pte s4 p i j (\<lambda>e. e\<lparr>writable := False\<rparr>)))"

text \<open>The body of the loops of the other branch (lines 233 to 245 of the source).\<close>

definition switch_pte :: "(nat \<Rightarrow> pte_directory) \<Rightarrow> vm \<Rightarrow> nat \<Rightarrow> nat \<Rightarrow> nat \<Rightarrow> fault + vm" where
  "switch_pte junk s p i j =
     (let q = ptbr s in
      if length (heap s) \<le> p then Inl NullPointer
      else if length (outer_ptes s p) \<le> i then Inl OutOfBounds
      else
        let s1 = (if outer_ptes s p ! i = None then set_dir s p i (junk i) else s) in
        if length (ptes s1 q i) \<le> j \<or> length (ptes s1 p i) \<le> j then Inl OutOfBounds
        else
          let s2 = (if writable (pte_at s1 q i j) \<or> private' (pte_at s1 q i j) = 1
                    then upd_pte s1 p i j (\<lambda>e. e\<lparr>private' := 1\<rparr>) else s1);
              s3 = (if \<not> valid (pte_at s2 p i j)
                    then
                      (let t = upd_pte s2 p i j (\<lambda>e. e\<lparr>valid := valid (pte_at s2 q i j)\<rparr>)
                       in upd_pte t p i j (\<lambda>e. e\<lparr>pfn := pfn (pte_at t q i j)\<rparr>))
                    else s2)
          in Inr (upd_pte s3 p i j (\<lambda>e. e\<lparr>writable := False\<rparr>)))"

text \<open>
  \<^verbatim>\<open>switch_process\<close>. The search of the ready queue is \<open>find\<close>: the first process
  with the requested pid. In the fork branch the new process object is appended to the
  heap, so its address is the old length of the heap; its \<^verbatim>\<open>outer_ptes\<close> slots are
  taken to be \<^verbatim>\<open>NULL\<close>, which is what the test
  \<^verbatim>\<open>p->pagetable.outer_ptes[i] == NULL\<close> right after \<^verbatim>\<open>malloc\<close> relies on.
\<close>

definition switch_process ::
  "nat \<Rightarrow> nat \<Rightarrow> nat \<Rightarrow> (nat \<Rightarrow> pte_directory) \<Rightarrow> vm \<Rightarrow> nat \<Rightarrow> fault + vm" where
  "switch_process NP NF NO junk s n =
     (case find (\<lambda>a. pid (heap s ! a) = n) (processes s) of
        None \<Rightarrow>
          (let p = length (heap s);
               s1 = s\<lparr>heap := heap s @ [\<lparr>pid = n, pagetable = replicate NO None\<rparr>],
                      processes := processes s @ [p]\<rparr>
           in (case walk_dirs (fork_pte junk) NP NF s1 p 0 of
                 Inl f \<Rightarrow> Inl f
               | Inr s2 \<Rightarrow> Inr (s2\<lparr>current := p, ptbr := p\<rparr>)))
      | Some p \<Rightarrow>
          (case walk_dirs (switch_pte junk) NP NF s p 0 of
             Inl f \<Rightarrow> Inl f
           | Inr s2 \<Rightarrow> Inr (s2\<lparr>current := p, ptbr := p\<rparr>)))"

section \<open>Counting the mappings of a frame\<close>

text \<open>
  The number of valid entries, over the page tables of all processes, whose frame is
  \<open>f\<close>; and the statement that every counter of \<^verbatim>\<open>mapcounts\<close> is that number.
\<close>

definition nr_mappings :: "vm \<Rightarrow> nat \<Rightarrow> nat" where
  "nr_mappings s f =
     sum_list (map (\<lambda>pr. sum_list (map (\<lambda>d. case d of
                                             None \<Rightarrow> 0
                                           | Some es \<Rightarrow> length (filter (\<lambda>e. valid e \<and> pfn e = f) es))
                                        (pagetable pr)))
                   (heap s))"

definition mapcounts_exact :: "vm \<Rightarrow> bool" where
  "mapcounts_exact s =
     list_all (\<lambda>f. unat (mapcounts s ! f) = nr_mappings s f) [0..<length (mapcounts s)]"

section \<open>A driver and concrete states\<close>

text \<open>
  The driver is outside the source file; it calls the four functions one after the
  other. \<open>run\<close> does that for a list of requests, with zero-filled memory for every
  directory that \<^verbatim>\<open>malloc\<close> returns. \<open>boot\<close> is the fresh system of the scenarios of
  the specification: all counters zero, an empty ready queue, and a current process
  (pid 0), not in the queue, whose page table has no directory.
\<close>

datatype request = Alloc nat nat | Free nat | Fault nat nat | Switch nat

definition zero_pte :: pte where
  "zero_pte = \<lparr>valid = False, writable = False, pfn = 0, private' = 0\<rparr>"

definition zero_dir :: "nat \<Rightarrow> pte_directory" where
  "zero_dir NP = replicate NP zero_pte"

definition boot :: "nat \<Rightarrow> nat \<Rightarrow> vm" where
  "boot NF NO =
     \<lparr>mapcounts = replicate NF 0, heap = [\<lparr>pid = 0, pagetable = replicate NO None\<rparr>],
      processes = [], current = 0, ptbr = 0\<rparr>"

definition zero_dirs :: "nat \<Rightarrow> nat \<Rightarrow> pte_directory" where
  "zero_dirs NP i = zero_dir NP"

fun exec :: "nat \<Rightarrow> nat \<Rightarrow> nat \<Rightarrow> vm \<Rightarrow> request \<Rightarrow> fault + vm" where
  "exec NP NF NO s (Alloc vpn rw) =
     (case alloc_page NP (zero_dir NP) s vpn rw of Inl f \<Rightarrow> Inl f | Inr (s', _) \<Rightarrow> Inr s')"
| "exec NP NF NO s (Free vpn) = free_page NP s vpn"
| "exec NP NF NO s (Fault vpn rw) =
     (case handle_page_fault NP s vpn rw of Inl f \<Rightarrow> Inl f | Inr (s', _) \<Rightarrow> Inr s')"
| "exec NP NF NO s (Switch n) = switch_process NP NF NO (zero_dirs NP) s n"

fun run :: "nat \<Rightarrow> nat \<Rightarrow> nat \<Rightarrow> vm \<Rightarrow> request list \<Rightarrow> fault + vm" where
  "run NP NF NO s [] = Inr s"
| "run NP NF NO s (r # rs) =
     (case exec NP NF NO s r of Inl f \<Rightarrow> Inl f | Inr s' \<Rightarrow> run NP NF NO s' rs)"

text \<open>
  Two small states, for two entries per directory, two directories and four frames.
  \<open>ex_shared\<close> is reached from \<open>boot 4 2\<close> by
  \<open>[Alloc 0 2, Alloc 1 1, Switch 99]\<close>: the child 99 shares frames 0 and 1 with its
  parent. \<open>ex_sole\<close> is reached by
  \<open>[Switch 1, Alloc 0 2, Switch 2, Fault 0 2, Switch 1]\<close>: process 1 is again the only
  one that maps frame 0, through an entry that is still read-only and private.
\<close>

definition ex_shared :: vm where
  "ex_shared =
     \<lparr>mapcounts = [2, 2, 0, 0],
      heap = [\<lparr>pid = 0, pagetable =
                 [Some [\<lparr>valid = True, writable = True, pfn = 0, private' = 0\<rparr>,
                        \<lparr>valid = True, writable = False, pfn = 1, private' = 0\<rparr>], None]\<rparr>,
              \<lparr>pid = 99, pagetable =
                 [Some [\<lparr>valid = True, writable = False, pfn = 0, private' = 1\<rparr>,
                        \<lparr>valid = True, writable = False, pfn = 1, private' = 0\<rparr>], None]\<rparr>],
      processes = [1], current = 1, ptbr = 1\<rparr>"

definition ex_sole :: vm where
  "ex_sole =
     \<lparr>mapcounts = [1, 1, 0, 0],
      heap = [\<lparr>pid = 0, pagetable = [None, None]\<rparr>,
              \<lparr>pid = 1, pagetable =
                 [Some [\<lparr>valid = True, writable = False, pfn = 0, private' = 1\<rparr>, zero_pte], None]\<rparr>,
              \<lparr>pid = 2, pagetable =
                 [Some [\<lparr>valid = True, writable = True, pfn = 1, private' = 1\<rparr>, zero_pte], None]\<rparr>],
      processes = [1, 2], current = 1, ptbr = 1\<rparr>"

text \<open>
  More states of the same size. \<open>ex_parent\<close> is reached from \<open>boot 4 2\<close> by
  \<open>[Alloc 0 2, Alloc 1 1]\<close>; forking 99 from it gives \<open>ex_shared\<close>. \<open>ex_two\<close> is
  reached by \<open>[Switch 1, Alloc 0 2, Switch 2]\<close> and \<open>ex_back\<close> is what switching back to
  process 1 makes of it. \<open>ex_pre\<close> is reached by \<open>[Switch 1, Switch 2, Alloc 0 3]\<close> and
  \<open>ex_broken\<close> is what switching to process 1 makes of it.
\<close>

definition ex_parent :: vm where
  "ex_parent =
     \<lparr>mapcounts = [1, 1, 0, 0],
      heap = [\<lparr>pid = 0, pagetable =
                 [Some [\<lparr>valid = True, writable = True, pfn = 0, private' = 0\<rparr>,
                        \<lparr>valid = True, writable = False, pfn = 1, private' = 0\<rparr>], None]\<rparr>],
      processes = [], current = 0, ptbr = 0\<rparr>"

definition ex_two :: vm where
  "ex_two =
     \<lparr>mapcounts = [2, 0, 0, 0],
      heap = [\<lparr>pid = 0, pagetable = [None, None]\<rparr>,
              \<lparr>pid = 1, pagetable =
                 [Some [\<lparr>valid = True, writable = True, pfn = 0, private' = 0\<rparr>, zero_pte], None]\<rparr>,
              \<lparr>pid = 2, pagetable =
                 [Some [\<lparr>valid = True, writable = False, pfn = 0, private' = 1\<rparr>, zero_pte], None]\<rparr>],
      processes = [1, 2], current = 2, ptbr = 2\<rparr>"


definition ex_pre :: vm where
  "ex_pre =
     \<lparr>mapcounts = [1, 0, 0, 0],
      heap = [\<lparr>pid = 0, pagetable = [None, None]\<rparr>,
              \<lparr>pid = 1, pagetable = [None, None]\<rparr>,
              \<lparr>pid = 2, pagetable =
                 [Some [\<lparr>valid = True, writable = True, pfn = 0, private' = 0\<rparr>, zero_pte], None]\<rparr>],
      processes = [1, 2], current = 2, ptbr = 2\<rparr>"

definition ex_broken :: vm where
  "ex_broken =
     \<lparr>mapcounts = [1, 0, 0, 0],
      heap = [\<lparr>pid = 0, pagetable = [None, None]\<rparr>,
              \<lparr>pid = 1, pagetable =
                 [Some [\<lparr>valid = True, writable = False, pfn = 0, private' = 1\<rparr>, zero_pte], None]\<rparr>,
              \<lparr>pid = 2, pagetable =
                 [Some [\<lparr>valid = True, writable = True, pfn = 0, private' = 0\<rparr>, zero_pte], None]\<rparr>],
      processes = [1, 2], current = 1, ptbr = 1\<rparr>"

section \<open>Auxiliary notions for the loops of switch\_process\<close>

text \<open>
  \<open>peek junk s p i\<close> is the directory that \<^verbatim>\<open>p->pagetable.outer_ptes[i]\<close> points to
  once the loop body has allocated it if it was \<^verbatim>\<open>NULL\<close>. \<open>fork_entry pe e\<close> and
  \<open>switch_entry pe e\<close> are the values that one run of the two loop bodies leaves in an
  entry that held \<open>e\<close>, where \<open>pe\<close> is the entry of the process \<^verbatim>\<open>ptbr\<close> points to;
  that the bodies compute them is proved below. \<open>same_but s s' p\<close> says that \<open>s'\<close>
  differs from \<open>s\<close> at most in the counters and in the directories of process \<open>p\<close>.
\<close>

definition peek :: "(nat \<Rightarrow> pte_directory) \<Rightarrow> vm \<Rightarrow> nat \<Rightarrow> nat \<Rightarrow> pte_directory" where
  "peek junk s p i = (case outer_ptes s p ! i of None \<Rightarrow> junk i | Some d \<Rightarrow> d)"

definition fork_entry :: "pte \<Rightarrow> pte \<Rightarrow> pte" where
  "fork_entry pe e =
     e\<lparr>private' := (if writable pe \<or> private' pe = 1 then 1 else private' e),
       valid := valid pe, pfn := pfn pe, writable := False\<rparr>"


definition same_but :: "vm \<Rightarrow> vm \<Rightarrow> nat \<Rightarrow> bool" where
  "same_but s s' p \<longleftrightarrow>
     ptbr s' = ptbr s \<and> current s' = current s \<and> processes s' = processes s
     \<and> length (heap s') = length (heap s)
     \<and> (\<forall>a. a \<noteq> p \<longrightarrow> heap s' ! a = heap s ! a)
     \<and> pid (heap s' ! p) = pid (heap s ! p)
     \<and> length (outer_ptes s' p) = length (outer_ptes s p)"

text \<open>
  What the lemmas about the loops need of a loop body: run on entry \<open>(i, j)\<close> of \<open>p\<close>
  while \<^verbatim>\<open>ptbr\<close> is the table of \<open>q\<close>, it rewrites that entry by \<open>G\<close> and touches
  nothing else but the counters.
\<close>

definition body_ok ::
  "(nat \<Rightarrow> pte_directory) \<Rightarrow> (pte \<Rightarrow> pte \<Rightarrow> pte) \<Rightarrow> (vm \<Rightarrow> nat \<Rightarrow> nat \<Rightarrow> nat \<Rightarrow> fault + vm)
     \<Rightarrow> nat \<Rightarrow> nat \<Rightarrow> bool" where
  "body_ok junk G body p q \<longleftrightarrow>
     (\<forall>s i j s'.
        ptbr s = q \<and> q < length (heap s) \<and> i < length (outer_ptes s q)
        \<and> outer_ptes s q ! i \<noteq> None \<and> body s p i j = Inr s'
        \<longrightarrow> peek junk s' p i = (peek junk s p i)[j := G (pte_at s q i j) (peek junk s p i ! j)]
            \<and> j < length (peek junk s p i)
            \<and> outer_ptes s' p ! i \<noteq> None
            \<and> (\<forall>k. k \<noteq> i \<longrightarrow> outer_ptes s' p ! k = outer_ptes s p ! k)
            \<and> same_but s s' p)"

text \<open>
  \<open>only_entry junk s t p i j X\<close>: state \<open>t\<close> is \<open>s\<close> with entry \<open>(i, j)\<close> of
  process \<open>p\<close> holding \<open>X\<close> (in a directory that exists in \<open>t\<close>), up to the counters.
\<close>

definition only_entry ::
  "(nat \<Rightarrow> pte_directory) \<Rightarrow> vm \<Rightarrow> vm \<Rightarrow> nat \<Rightarrow> nat \<Rightarrow> nat \<Rightarrow> pte \<Rightarrow> bool" where
  "only_entry junk s t p i j X \<longleftrightarrow>
     pte_fault t p i j = None
     \<and> peek junk t p i = (peek junk s p i)[j := X]
     \<and> same_but s t p
     \<and> (\<forall>k. k \<noteq> i \<longrightarrow> outer_ptes t p ! k = outer_ptes s p ! k)"

section \<open>Basic facts about the store and the scan\<close>

lemma first_free_least:
  "i \<le> g \<Longrightarrow> g < length mc \<Longrightarrow> mc ! g = 0 \<Longrightarrow> (\<forall>k. i \<le> k \<and> k < g \<longrightarrow> mc ! k \<noteq> 0)
   \<Longrightarrow> first_free i mc = Inr g"
proof (induction i mc rule: first_free.induct)
  case (1 i mc)
  show ?case
  proof (cases "mc ! i = 0")
    case True
    with 1 have "i = g" by (metis le_neq_implies_less order_refl)
    with 1 True show ?thesis by (simp add: first_free.simps)
  next
    case False
    with 1 have "i \<noteq> g" by auto
    with 1 have "Suc i \<le> g" by simp
    moreover have "i < length mc" using 1 by simp
    ultimately show ?thesis using 1 False
      by (subst first_free.simps) simp
  qed
qed

lemma first_free_sound:
  "first_free i mc = Inr g \<Longrightarrow>
   i \<le> g \<and> g < length mc \<and> mc ! g = 0 \<and> (\<forall>k. i \<le> k \<and> k < g \<longrightarrow> mc ! k \<noteq> 0)"
proof (induction i mc rule: first_free.induct)
  case (1 i mc)
  show ?case
  proof (cases "i < length mc \<and> mc ! i \<noteq> 0")
    case True
    with 1 have "first_free (Suc i) mc = Inr g" by (simp add: first_free.simps)
    with 1 True have "Suc i \<le> g \<and> g < length mc \<and> mc ! g = 0 \<and> (\<forall>k. Suc i \<le> k \<and> k < g \<longrightarrow> mc ! k \<noteq> 0)"
      by simp
    with True show ?thesis using Suc_le_eq le_eq_less_or_eq by auto 
  next
    case False
    with 1 show ?thesis by (auto simp: first_free.simps split: if_splits)
  qed
qed

lemma first_free_full:
  "(\<forall>k. i \<le> k \<and> k < length mc \<longrightarrow> mc ! k \<noteq> 0) \<Longrightarrow> first_free i mc = Inl OutOfBounds"
proof (induction i mc rule: first_free.induct)
  case (1 i mc)
  then show ?case by (subst first_free.simps) simp
qed

lemma heap_set_dir [simp]: "length (heap (set_dir s a i d)) = length (heap s)"
  by (simp add: set_dir_def)

lemma mapcounts_set_dir [simp]: "mapcounts (set_dir s a i d) = mapcounts s"
  by (simp add: set_dir_def)

lemma ptbr_set_dir [simp]: "ptbr (set_dir s a i d) = ptbr s"
  by (simp add: set_dir_def)

lemma current_set_dir [simp]: "current (set_dir s a i d) = current s"
  by (simp add: set_dir_def)

lemma processes_set_dir [simp]: "processes (set_dir s a i d) = processes s"
  by (simp add: set_dir_def)

lemma outer_ptes_set_dir:
  "a < length (heap s) \<Longrightarrow>
   outer_ptes (set_dir s a i d) b = (if b = a then (outer_ptes s a)[i := Some d] else outer_ptes s b)"
  by (simp add: set_dir_def outer_ptes_def)

lemma ptes_set_dir:
  "a < length (heap s) \<Longrightarrow> i < length (outer_ptes s a) \<Longrightarrow>
   ptes (set_dir s a i d) b k = (if b = a \<and> k = i then d else ptes s b k)"
  by (simp add: ptes_def outer_ptes_set_dir)

lemma pid_set_dir [simp]: "pid (heap (set_dir s a i d) ! b) = pid (heap s ! b)"
  by (cases "a < length (heap s)") (simp_all add: set_dir_def nth_list_update list_update_beyond)

lemma heap_other_set_dir: "b \<noteq> a \<Longrightarrow> heap (set_dir s a i d) ! b = heap s ! b"
  by (simp add: set_dir_def)

lemma upd_pte_fields [simp]:
  "length (heap (upd_pte s a i j f)) = length (heap s)"
  "mapcounts (upd_pte s a i j f) = mapcounts s"
  "ptbr (upd_pte s a i j f) = ptbr s"
  "current (upd_pte s a i j f) = current s"
  "processes (upd_pte s a i j f) = processes s"
  "pid (heap (upd_pte s a i j f) ! b) = pid (heap s ! b)"
  by (simp_all add: upd_pte_def)

lemma outer_ptes_upd_pte:
  "a < length (heap s) \<Longrightarrow>
   outer_ptes (upd_pte s a i j f) b =
     (if b = a then (outer_ptes s a)[i := Some ((ptes s a i)[j := f (pte_at s a i j)])] else outer_ptes s b)"
  by (simp add: upd_pte_def outer_ptes_set_dir)

lemma ptes_upd_pte:
  "a < length (heap s) \<Longrightarrow> i < length (outer_ptes s a) \<Longrightarrow>
   ptes (upd_pte s a i j f) b k =
     (if b = a \<and> k = i then (ptes s a i)[j := f (pte_at s a i j)] else ptes s b k)"
  by (simp add: upd_pte_def ptes_set_dir)

lemma pte_at_upd_pte:
  "a < length (heap s) \<Longrightarrow> i < length (outer_ptes s a) \<Longrightarrow> j < length (ptes s a i) \<Longrightarrow>
   pte_at (upd_pte s a i j f) b k l =
     (if b = a \<and> k = i \<and> l = j then f (pte_at s a i j) else pte_at s b k l)"
  by (simp add: pte_at_def ptes_upd_pte)

lemma length_outer_upd_pte [simp]:
  "length (outer_ptes (upd_pte s a i j f) b) = length (outer_ptes s b)"
  by (cases "a < length (heap s)")
    (simp_all add: outer_ptes_upd_pte upd_pte_def set_dir_def outer_ptes_def list_update_beyond nth_list_update)

lemma heap_other_upd_pte: "b \<noteq> a \<Longrightarrow> heap (upd_pte s a i j f) ! b = heap s ! b"
  by (simp add: upd_pte_def heap_other_set_dir)

lemma pte_fault_NoneD:
  "pte_fault s a i j = None \<Longrightarrow>
   a < length (heap s) \<and> i < length (outer_ptes s a) \<and> outer_ptes s a ! i \<noteq> None \<and> j < length (ptes s a i)"
  by (auto simp: pte_fault_def ptes_def split: if_splits option.splits)

lemma bit1_small: "rw < 4 \<Longrightarrow> bit rw (Suc 0) = (rw = 2 \<or> rw = (3::nat))"
proof -
  assume "rw < 4"
  then have "rw = 0 \<or> rw = 1 \<or> rw = 2 \<or> rw = 3" by arith
  then show ?thesis by (auto simp: bit_iff_odd)
qed

lemma outer_ptes_upd_pte_nth:
  "a < length (heap s) \<Longrightarrow> i < length (outer_ptes s a) \<Longrightarrow>
   outer_ptes (upd_pte s a i j f) a ! i = Some ((ptes s a i)[j := f (pte_at s a i j)])"
  by (simp add: outer_ptes_upd_pte)

lemma mapcounts_update_reads [simp]:
  "outer_ptes (s\<lparr>mapcounts := m\<rparr>) a = outer_ptes s a"
  "ptes (s\<lparr>mapcounts := m\<rparr>) a i = ptes s a i"
  "pte_at (s\<lparr>mapcounts := m\<rparr>) a i j = pte_at s a i j"
  by (simp_all add: outer_ptes_def ptes_def pte_at_def)

lemma pte_at_upd_pte_same:
  "pte_fault s a i j = None \<Longrightarrow> pte_at (upd_pte s a i j f) b k l =
     (if b = a \<and> k = i \<and> l = j then f (pte_at s a i j) else pte_at s b k l)"
  by (frule pte_fault_NoneD) (simp add: pte_at_upd_pte)

lemma pte_fault_upd_pte:
  "pte_fault s a i j = None \<Longrightarrow> pte_fault (upd_pte s a i j f) a i j = None"
  by (frule pte_fault_NoneD) (simp add: pte_fault_def outer_ptes_upd_pte)




lemma pte_fault_mapcounts [simp]: "pte_fault (s\<lparr>mapcounts := m\<rparr>) a i j = pte_fault s a i j"
  by (simp add: pte_fault_def)

lemma upd_pte_mapcounts_commute:
  "upd_pte (s\<lparr>mapcounts := m\<rparr>) a i j f = (upd_pte s a i j f)\<lparr>mapcounts := m\<rparr>"
  by (simp add: upd_pte_def set_dir_def)

section \<open>The loops of switch\_process\<close>

lemma same_but_refl: "same_but s s p"
  by (simp add: same_but_def)

lemma same_but_trans: "same_but s s1 p \<Longrightarrow> same_but s1 s2 p \<Longrightarrow> same_but s s2 p"
  by (simp add: same_but_def outer_ptes_def)

lemma same_but_mapcounts: "same_but s (s\<lparr>mapcounts := m\<rparr>) p"
  by (simp add: same_but_def outer_ptes_def)

lemma length_outer_set_dir [simp]:
  "length (outer_ptes (set_dir s a i d) b) = length (outer_ptes s b)"
  by (cases "a < length (heap s)")
    (simp_all add: set_dir_def outer_ptes_def list_update_beyond nth_list_update)

lemma same_but_set_dir: "same_but s (set_dir s p i d) p"
  by (simp add: same_but_def heap_other_set_dir)

lemma same_but_upd_pte: "same_but s (upd_pte s p i j f) p"
  by (simp add: same_but_def heap_other_upd_pte)

lemma pte_at_peek: "outer_ptes s p ! i \<noteq> None \<Longrightarrow> pte_at s p i j = peek junk s p i ! j"
  by (auto simp: pte_at_def ptes_def peek_def)

lemma ptes_peek: "outer_ptes s p ! i \<noteq> None \<Longrightarrow> ptes s p i = peek junk s p i"
  by (auto simp: ptes_def peek_def)

lemma same_but_other:
  "same_but s s' p \<Longrightarrow> q \<noteq> p \<Longrightarrow> outer_ptes s' q = outer_ptes s q"
  by (simp add: same_but_def outer_ptes_def)

lemma walk_ptes_Inr_cases:
  assumes "walk_ptes body NP s p i j = Inr s'"
  obtains (stop) "s' = s" "\<not> j < NP \<or> outer_ptes s (ptbr s) ! i = None"
  | (step) s1 where "j < NP" "ptbr s < length (heap s)" "i < length (outer_ptes s (ptbr s))"
      "outer_ptes s (ptbr s) ! i \<noteq> None" "body s p i j = Inr s1"
      "walk_ptes body NP s1 p i (Suc j) = Inr s'"
  using assms
  by (subst (asm) walk_ptes.simps) (auto split: if_splits sum.splits)

lemma walk_dirs_Inr_cases:
  assumes "walk_dirs body NP NF s p i = Inr s'"
  obtains (stop) "s' = s" "\<not> i < NF div NP"
  | (step) s1 where "i < NF div NP" "walk_ptes body NP s p i 0 = Inr s1"
      "walk_dirs body NP NF s1 p (Suc i) = Inr s'"
  using assms
  by (subst (asm) walk_dirs.simps) (auto split: if_splits sum.splits)



lemma pte_fault_iff:
  "pte_fault s a i j = None \<longleftrightarrow>
   a < length (heap s) \<and> i < length (outer_ptes s a) \<and> outer_ptes s a ! i \<noteq> None \<and> j < length (ptes s a i)"
  by (auto simp: pte_fault_def ptes_def split: if_splits option.splits)

lemma ptes_upd_pte_same:
  "pte_fault s a i j = None \<Longrightarrow>
   ptes (upd_pte s a i j f) b k =
     (if b = a \<and> k = i then (ptes s a i)[j := f (pte_at s a i j)] else ptes s b k)"
  by (simp add: pte_fault_iff ptes_upd_pte)

lemma outer_nth_upd_pte:
  "pte_fault s a i j = None \<Longrightarrow>
   outer_ptes (upd_pte s a i j f) b ! k =
     (if b = a \<and> k = i then Some ((ptes s a i)[j := f (pte_at s a i j)]) else outer_ptes s b ! k)"
  by (simp add: pte_fault_iff outer_ptes_upd_pte)

lemma peek_upd_pte:
  "pte_fault s a i j = None \<Longrightarrow>
   peek junk (upd_pte s a i j f) a i = (peek junk s a i)[j := f (peek junk s a i ! j)]"
  by (simp add: peek_def outer_nth_upd_pte) (auto simp: pte_fault_iff ptes_def pte_at_def)

lemma peek_mapcounts [simp]: "peek junk (s\<lparr>mapcounts := m\<rparr>) a i = peek junk s a i"
  by (simp add: peek_def)

lemma same_but_mapcounts_r: "same_but s s' p \<Longrightarrow> same_but s (s'\<lparr>mapcounts := m\<rparr>) p"
  by (simp add: same_but_def outer_ptes_def)

lemma lazy_dir:
  assumes "p < length (heap s)" and "i < length (outer_ptes s p)"
    and "s1 = (if outer_ptes s p ! i = None then set_dir s p i (junk i) else s)"
  shows "ptes s1 p i = peek junk s p i"
    and "peek junk s1 p i = peek junk s p i"
    and "outer_ptes s1 p ! i \<noteq> None"
    and "same_but s s1 p"
    and "\<forall>k. k \<noteq> i \<longrightarrow> outer_ptes s1 p ! k = outer_ptes s p ! k"
    and "mapcounts s1 = mapcounts s"
    and "\<forall>q. q \<noteq> p \<longrightarrow> outer_ptes s1 q = outer_ptes s q"
    and "outer_ptes s p ! i \<noteq> None \<longrightarrow> s1 = s"
  using assms
  by (auto simp: ptes_set_dir peek_def outer_ptes_set_dir same_but_set_dir same_but_refl ptes_def)

lemma pte_at_other:
  "outer_ptes s' q = outer_ptes s q \<Longrightarrow> pte_at s' q i j = pte_at s q i j"
  by (simp add: pte_at_def ptes_def)

lemma fork_pte_Inr:
  assumes r: "fork_pte junk s p i j = Inr s'"
    and s1: "s1 = (if outer_ptes s p ! i = None then set_dir s p i (junk i) else s)"
    and t2: "t2 = (if writable (pte_at s1 (ptbr s) i j) \<or> private' (pte_at s1 (ptbr s) i j) = 1
                   then upd_pte s1 p i j (\<lambda>e. e\<lparr>private' := 1\<rparr>) else s1)"
    and t3: "t3 = upd_pte t2 p i j (\<lambda>e. e\<lparr>valid := valid (pte_at t2 (ptbr s) i j)\<rparr>)"
    and t4: "t4 = upd_pte t3 p i j (\<lambda>e. e\<lparr>pfn := pfn (pte_at t3 (ptbr s) i j)\<rparr>)"
  shows "p < length (heap s)" and "i < length (outer_ptes s p)"
    and "j < length (ptes s1 (ptbr s) i)" and "j < length (ptes s1 p i)"
    and "valid (pte_at t4 (ptbr s) i j) \<longrightarrow> pfn (pte_at t4 (ptbr s) i j) < length (mapcounts t4)"
    and "s' = upd_pte (if valid (pte_at t4 (ptbr s) i j)
                       then t4\<lparr>mapcounts := (mapcounts t4)[pfn (pte_at t4 (ptbr s) i j) :=
                                 mapcounts t4 ! pfn (pte_at t4 (ptbr s) i j) + 1]\<rparr>
                       else t4) p i j (\<lambda>e. e\<lparr>writable := False\<rparr>)"
proof -
  have u: "fork_pte junk s p i j =
      (if length (heap s) \<le> p then Inl NullPointer
       else if length (outer_ptes s p) \<le> i then Inl OutOfBounds
       else if length (ptes s1 (ptbr s) i) \<le> j \<or> length (ptes s1 p i) \<le> j then Inl OutOfBounds
       else if valid (pte_at t4 (ptbr s) i j)
            then (if length (mapcounts t4) \<le> pfn (pte_at t4 (ptbr s) i j) then Inl OutOfBounds
                  else Inr (upd_pte (t4\<lparr>mapcounts := (mapcounts t4)[pfn (pte_at t4 (ptbr s) i j) :=
                                 mapcounts t4 ! pfn (pte_at t4 (ptbr s) i j) + 1]\<rparr>) p i j (\<lambda>e. e\<lparr>writable := False\<rparr>)))
            else Inr (upd_pte t4 p i j (\<lambda>e. e\<lparr>writable := False\<rparr>)))"
    unfolding fork_pte_def Let_def t4 t3 t2 s1 ..
  from r [unfolded u]
  show "p < length (heap s)" and "i < length (outer_ptes s p)"
    and "j < length (ptes s1 (ptbr s) i)" and "j < length (ptes s1 p i)"
    and "valid (pte_at t4 (ptbr s) i j) \<longrightarrow> pfn (pte_at t4 (ptbr s) i j) < length (mapcounts t4)"
    and "s' = upd_pte (if valid (pte_at t4 (ptbr s) i j)
                       then t4\<lparr>mapcounts := (mapcounts t4)[pfn (pte_at t4 (ptbr s) i j) :=
                                 mapcounts t4 ! pfn (pte_at t4 (ptbr s) i j) + 1]\<rparr>
                       else t4) p i j (\<lambda>e. e\<lparr>writable := False\<rparr>)"
    by (simp_all split: if_splits)
qed

lemma only_entry_init:
  assumes "pte_fault s1 p i j = None" and "peek junk s1 p i = peek junk s p i"
    and "same_but s s1 p" and "\<forall>k. k \<noteq> i \<longrightarrow> outer_ptes s1 p ! k = outer_ptes s p ! k"
  shows "only_entry junk s s1 p i j (peek junk s p i ! j)"
  using assms by (simp add: only_entry_def)

lemma only_entry_upd:
  assumes "only_entry junk s t p i j X"
  shows "only_entry junk s (upd_pte t p i j f) p i j (f X)"
proof -
  from assms have pf: "pte_fault t p i j = None"
    and pk: "peek junk t p i = (peek junk s p i)[j := X]"
    and sb: "same_but s t p"
    and ot: "\<forall>k. k \<noteq> i \<longrightarrow> outer_ptes t p ! k = outer_ptes s p ! k"
    by (simp_all add: only_entry_def)
  have jl: "j < length (peek junk s p i)"
    using pf pk by (metis length_list_update pte_fault_iff ptes_peek)
  have "peek junk (upd_pte t p i j f) p i = (peek junk s p i)[j := f X]"
    using peek_upd_pte [OF pf] pk jl by simp
  moreover have "same_but s (upd_pte t p i j f) p"
    using sb same_but_upd_pte by (rule same_but_trans)
  moreover have "\<forall>k. k \<noteq> i \<longrightarrow> outer_ptes (upd_pte t p i j f) p ! k = outer_ptes s p ! k"
    using ot by (simp add: outer_nth_upd_pte [OF pf])
  ultimately show ?thesis
    using pte_fault_upd_pte [OF pf] by (simp add: only_entry_def)
qed


lemma only_entry_read_other:
  assumes "only_entry junk s t p i j X" and "q \<noteq> p"
  shows "pte_at t q k l = pte_at s q k l"
  using assms by (simp add: only_entry_def same_but_def pte_at_def ptes_def outer_ptes_def)

lemma only_entry_mapcounts:
  assumes "only_entry junk s t p i j X"
  shows "only_entry junk s (t\<lparr>mapcounts := m\<rparr>) p i j X"
  using assms by (simp add: only_entry_def same_but_mapcounts_r)

lemma only_entry_final:
  assumes "only_entry junk s t p i j X"
  shows "peek junk t p i = (peek junk s p i)[j := X]" and "j < length (peek junk s p i)"
    and "outer_ptes t p ! i \<noteq> None" and "\<forall>k. k \<noteq> i \<longrightarrow> outer_ptes t p ! k = outer_ptes s p ! k"
    and "same_but s t p"
proof -
  from assms have pf: "pte_fault t p i j = None"
    and pk: "peek junk t p i = (peek junk s p i)[j := X]"
    by (simp_all add: only_entry_def)
  show "j < length (peek junk s p i)"
    using pf pk by (metis length_list_update pte_fault_iff ptes_peek)
qed (use assms in \<open>simp_all add: only_entry_def pte_fault_iff\<close>)

lemma fork_pte_ok:
  assumes "q \<noteq> p"
  shows "body_ok junk fork_entry (fork_pte junk) p q"
  unfolding body_ok_def
proof (intro allI impI, elim conjE)
  fix s i j s'
  assume q: "ptbr s = q" and ql: "q < length (heap s)" and il: "i < length (outer_ptes s q)"
    and qd: "outer_ptes s q ! i \<noteq> None" and r: "fork_pte junk s p i j = Inr s'"
  define pe where "pe = pte_at s q i j"
  define E where "E = peek junk s p i ! j"
  define s1 where "s1 = (if outer_ptes s p ! i = None then set_dir s p i (junk i) else s)"
  define t2 where "t2 = (if writable (pte_at s1 (ptbr s) i j) \<or> private' (pte_at s1 (ptbr s) i j) = 1
                   then upd_pte s1 p i j (\<lambda>e. e\<lparr>private' := 1\<rparr>) else s1)"
  define t3 where "t3 = upd_pte t2 p i j (\<lambda>e. e\<lparr>valid := valid (pte_at t2 (ptbr s) i j)\<rparr>)"
  define t4 where "t4 = upd_pte t3 p i j (\<lambda>e. e\<lparr>pfn := pfn (pte_at t3 (ptbr s) i j)\<rparr>)"
  note F = fork_pte_Inr [OF r s1_def t2_def t3_def t4_def]
  note L = lazy_dir [where junk = junk, OF F(1,2) s1_def]
  have f1: "pte_fault s1 p i j = None"
    using F(1,2,4) L(3,4) by (simp add: pte_fault_iff same_but_def)
  have o1: "only_entry junk s s1 p i j E"
    unfolding E_def using f1 L(2,4,5) by (rule only_entry_init)
  have r1: "pte_at s1 (ptbr s) i j = pe"
    unfolding pe_def q using o1 assms by (rule only_entry_read_other)
  define X2 where "X2 = (if writable pe \<or> private' pe = 1 then E\<lparr>private' := 1\<rparr> else E)"
  have o2: "only_entry junk s t2 p i j X2"
    unfolding t2_def X2_def r1 using o1 only_entry_upd [OF o1, of "\<lambda>e. e\<lparr>private' := 1\<rparr>"] by simp
  have r2: "pte_at t2 (ptbr s) i j = pe"
    unfolding pe_def q using o2 assms by (rule only_entry_read_other)
  have o3: "only_entry junk s t3 p i j (X2\<lparr>valid := valid pe\<rparr>)"
    unfolding t3_def r2 using only_entry_upd [OF o2, of "\<lambda>e. e\<lparr>valid := valid pe\<rparr>"] by simp
  have r3: "pte_at t3 (ptbr s) i j = pe"
    unfolding pe_def q using o3 assms by (rule only_entry_read_other)
  have o4: "only_entry junk s t4 p i j (X2\<lparr>valid := valid pe, pfn := pfn pe\<rparr>)"
    unfolding t4_def r3 using only_entry_upd [OF o3, of "\<lambda>e. e\<lparr>pfn := pfn pe\<rparr>"] by simp
  have o4': "only_entry junk s (if c then t4\<lparr>mapcounts := m\<rparr> else t4) p i j
               (X2\<lparr>valid := valid pe, pfn := pfn pe\<rparr>)" for c m
    using o4 only_entry_mapcounts [OF o4] by simp
  have "only_entry junk s s' p i j (X2\<lparr>valid := valid pe, pfn := pfn pe, writable := False\<rparr>)"
    unfolding F(6) using only_entry_upd [OF o4', of _ _ "\<lambda>e. e\<lparr>writable := False\<rparr>"] by simp
  moreover have "X2\<lparr>valid := valid pe, pfn := pfn pe, writable := False\<rparr> = fork_entry pe E"
    by (simp add: X2_def fork_entry_def)
  ultimately have "only_entry junk s s' p i j (fork_entry (pte_at s q i j) (peek junk s p i ! j))"
    by (simp add: pe_def E_def)
  from only_entry_final [OF this]
  show "peek junk s' p i = (peek junk s p i)[j := fork_entry (pte_at s q i j) (peek junk s p i ! j)] \<and>
        j < length (peek junk s p i) \<and> outer_ptes s' p ! i \<noteq> None \<and>
        (\<forall>k. k \<noteq> i \<longrightarrow> outer_ptes s' p ! k = outer_ptes s p ! k) \<and> same_but s s' p"
    by simp
qed





lemma same_dir_reads:
  assumes "outer_ptes s1 a ! i = outer_ptes s a ! i"
  shows "pte_at s1 a i j = pte_at s a i j" and "peek junk s1 a i = peek junk s a i"
  using assms by (simp_all add: pte_at_def ptes_def peek_def)

lemma body_okD:
  assumes "body_ok junk G body p q"
    and "ptbr s = q" and "q < length (heap s)" and "i < length (outer_ptes s q)"
    and "outer_ptes s q ! i \<noteq> None" and "body s p i j = Inr s'"
  shows "peek junk s' p i = (peek junk s p i)[j := G (pte_at s q i j) (peek junk s p i ! j)]"
    and "j < length (peek junk s p i)"
    and "outer_ptes s' p ! i \<noteq> None"
    and "\<forall>k. k \<noteq> i \<longrightarrow> outer_ptes s' p ! k = outer_ptes s p ! k"
    and "same_but s s' p"
  using assms unfolding body_ok_def by blast+

lemma walk_ptes_entries:
  assumes ok: "body_ok junk G body p q"
    and w: "walk_ptes body NP s p i j0 = Inr s'"
    and q: "ptbr s = q" and qd: "outer_ptes s q ! i \<noteq> None"
  shows "(\<forall>j. peek junk s' p i ! j =
            (if j0 \<le> j \<and> j < NP then G (pte_at s q i j) (peek junk s p i ! j)
             else peek junk s p i ! j))
         \<and> (j0 < NP \<longrightarrow> outer_ptes s' p ! i \<noteq> None)
         \<and> (\<forall>k. k \<noteq> i \<longrightarrow> outer_ptes s' p ! k = outer_ptes s p ! k)
         \<and> same_but s s' p"
  using w q qd
proof (induction "NP - j0" arbitrary: s j0)
  case 0
  then have n: "NP \<le> j0" by simp
  from "0.prems"(1) show ?case
  proof (cases rule: walk_ptes_Inr_cases)
    case stop
    have a: "(j0 \<le> j \<and> j < NP) = False" for j using n by arith
    have b: "(j0 < NP) = False" using n by arith
    show ?thesis unfolding stop(1) a b by (simp add: same_but_refl)
  next
    case (step s1)
    then have False using n by simp
    then show ?thesis ..
  qed
next
  case (Suc n)
  then have lt: "j0 < NP" by arith
  from Suc.prems(1) show ?case
  proof (cases rule: walk_ptes_Inr_cases)
    case stop
    then have False using lt Suc.prems(2,3) by simp
    then show ?thesis ..
  next
    case (step s1)
    note q = Suc.prems(2) and qd = Suc.prems(3)
    note B = body_okD [OF ok q step(2,3,4,5) [unfolded q]]
    have q1: "ptbr s1 = q" using B(5) q by (simp add: same_but_def)
    have od: "outer_ptes s1 q ! i \<noteq> None"
    proof (cases "q = p")
      case True then show ?thesis using B(3) by simp
    next
      case False then show ?thesis using same_but_other [OF B(5) False] qd by simp
    qed
    have rd: "pte_at s1 q i j = pte_at s q i j" if "j \<noteq> j0" for j
    proof (cases "q = p")
      case True
      have "pte_at s1 p i j = peek junk s1 p i ! j" using B(3) by (rule pte_at_peek)
      also have "\<dots> = peek junk s p i ! j" using B(1) that by simp
      also have "\<dots> = pte_at s p i j"
        using pte_at_peek [of s p i j junk] qd True by simp
      finally show ?thesis using True by simp
    next
      case False
      show ?thesis using same_but_other [OF B(5) False] by (rule pte_at_other)
    qed
    have n: "n = NP - Suc j0" using Suc.hyps(2) by simp
    note IH = Suc.hyps(1) [OF n step(6) q1 od]
    have I1: "peek junk s' p i ! j =
            (if Suc j0 \<le> j \<and> j < NP then G (pte_at s1 q i j) (peek junk s1 p i ! j)
             else peek junk s1 p i ! j)" for j
      using IH [THEN conjunct1, THEN spec, of j] .
    note I2 = IH [THEN conjunct2, THEN conjunct1]
    note I3 = IH [THEN conjunct2, THEN conjunct2, THEN conjunct1]
    note I4 = IH [THEN conjunct2, THEN conjunct2, THEN conjunct2]
    have pk: "peek junk s1 p i ! j = peek junk s p i ! j" if "j \<noteq> j0" for j
      using B(1) that by simp
    have pk0: "peek junk s1 p i ! j0 = G (pte_at s q i j0) (peek junk s p i ! j0)"
      using B(1,2) by simp
    have e: "peek junk s' p i ! j =
            (if j0 \<le> j \<and> j < NP then G (pte_at s q i j) (peek junk s p i ! j)
             else peek junk s p i ! j)" for j
    proof (cases "j = j0")
      case True
      have "peek junk s' p i ! j0 = peek junk s1 p i ! j0" using I1 [of j0] by simp
      then show ?thesis using True pk0 step(1) by simp
    next
      case False
      show ?thesis
      proof (cases "Suc j0 \<le> j \<and> j < NP")
        case True
        have "peek junk s' p i ! j = G (pte_at s1 q i j) (peek junk s1 p i ! j)"
          unfolding I1 [of j] using True by simp
        then show ?thesis using True rd [OF False] pk [OF False] by simp
      next
        case F: False
        have "peek junk s' p i ! j = peek junk s1 p i ! j"
          unfolding I1 [of j] using F by auto
        moreover have "\<not> (j0 \<le> j \<and> j < NP)" using F False by auto
        ultimately show ?thesis using pk [OF False] by auto
      qed
    qed
    have d: "outer_ptes s' p ! i \<noteq> None"
    proof (cases "Suc j0 < NP")
      case True then show ?thesis using I2 by simp
    next
      case False
      from step(6) have "s' = s1"
      proof (cases rule: walk_ptes_Inr_cases)
        case stop then show ?thesis by simp
      next
        case (step s2) then show ?thesis using False by simp
      qed
      then show ?thesis using B(3) by simp
    qed
    have o: "\<forall>k. k \<noteq> i \<longrightarrow> outer_ptes s' p ! k = outer_ptes s p ! k"
      using I3 B(4) by simp
    have sb: "same_but s s' p"
      using B(5) I4 by (rule same_but_trans)
    show ?thesis
    proof (intro conjI)
      show "\<forall>j. peek junk s' p i ! j =
            (if j0 \<le> j \<and> j < NP then G (pte_at s q i j) (peek junk s p i ! j)
             else peek junk s p i ! j)"
        using e by (intro allI)
      show "j0 < NP \<longrightarrow> outer_ptes s' p ! i \<noteq> None" using d by (intro impI)
    qed (rule o, rule sb)
  qed
qed

lemma walk_ptes_row:
  assumes ok: "body_ok junk G body p q"
    and w: "walk_ptes body NP s p i 0 = Inr s1"
    and q: "ptbr s = q"
  shows "(\<forall>j. peek junk s1 p i ! j =
            (if outer_ptes s q ! i \<noteq> None \<and> j < NP then G (pte_at s q i j) (peek junk s p i ! j)
             else peek junk s p i ! j))
         \<and> (outer_ptes s q ! i \<noteq> None \<and> 0 < NP \<longrightarrow> outer_ptes s1 p ! i \<noteq> None)
         \<and> (outer_ptes s q ! i = None \<longrightarrow> s1 = s)
         \<and> (\<forall>k. k \<noteq> i \<longrightarrow> outer_ptes s1 p ! k = outer_ptes s p ! k)
         \<and> same_but s s1 p"
proof (cases "outer_ptes s q ! i = None")
  case True
  from w have "s1 = s"
  proof (cases rule: walk_ptes_Inr_cases)
    case stop then show ?thesis by simp
  next
    case (step s2) then show ?thesis using True q by simp
  qed
  then show ?thesis using True by (simp add: same_but_refl)
next
  case False
  note E = walk_ptes_entries [OF ok w q False]
  show ?thesis
  proof (intro conjI)
    show "\<forall>j. peek junk s1 p i ! j =
            (if outer_ptes s q ! i \<noteq> None \<and> j < NP then G (pte_at s q i j) (peek junk s p i ! j)
             else peek junk s p i ! j)"
      using E [THEN conjunct1] False by simp
    show "outer_ptes s q ! i \<noteq> None \<and> 0 < NP \<longrightarrow> outer_ptes s1 p ! i \<noteq> None"
      using E [THEN conjunct2, THEN conjunct1] by simp
    show "outer_ptes s q ! i = None \<longrightarrow> s1 = s" using False by auto
    show "\<forall>k. k \<noteq> i \<longrightarrow> outer_ptes s1 p ! k = outer_ptes s p ! k"
      using E [THEN conjunct2, THEN conjunct2, THEN conjunct1] .
    show "same_but s s1 p"
      using E [THEN conjunct2, THEN conjunct2, THEN conjunct2] .
  qed
qed

lemma walk_dirs_entries:
  assumes ok: "body_ok junk G body p q"
    and w: "walk_dirs body NP NF s p i0 = Inr s'"
    and q: "ptbr s = q"
  shows "(\<forall>i j. peek junk s' p i ! j =
            (if i0 \<le> i \<and> i < NF div NP \<and> outer_ptes s q ! i \<noteq> None \<and> j < NP
             then G (pte_at s q i j) (peek junk s p i ! j)
             else peek junk s p i ! j))
         \<and> (\<forall>i. i0 \<le> i \<and> i < NF div NP \<and> outer_ptes s q ! i \<noteq> None \<and> 0 < NP
                \<longrightarrow> outer_ptes s' p ! i \<noteq> None)
         \<and> (\<forall>i. \<not> (i0 \<le> i \<and> i < NF div NP \<and> outer_ptes s q ! i \<noteq> None)
                \<longrightarrow> outer_ptes s' p ! i = outer_ptes s p ! i)
         \<and> same_but s s' p"
  using w q
proof (induction "NF div NP - i0" arbitrary: s i0)
  case 0
  then have n: "NF div NP \<le> i0" by simp
  from "0.prems"(1) show ?case
  proof (cases rule: walk_dirs_Inr_cases)
    case stop
    have a: "(i0 \<le> i \<and> i < NF div NP \<and> R) = False" for i R using n by auto
    show ?thesis unfolding stop(1) a by (simp add: same_but_refl)
  next
    case (step s1)
    then have False using n by simp
    then show ?thesis ..
  qed
next
  case (Suc n)
  then have lt: "i0 < NF div NP" by arith
  from Suc.prems(1) show ?case
  proof (cases rule: walk_dirs_Inr_cases)
    case stop
    then have False using lt by simp
    then show ?thesis ..
  next
    case (step s1)
    note q = Suc.prems(2)
    note R = walk_ptes_row [OF ok step(2) q]
    have R1: "peek junk s1 p i0 ! j =
            (if outer_ptes s q ! i0 \<noteq> None \<and> j < NP then G (pte_at s q i0 j) (peek junk s p i0 ! j)
             else peek junk s p i0 ! j)" for j
      using R [THEN conjunct1, THEN spec, of j] .
    note R2 = R [THEN conjunct2, THEN conjunct1]
    note R3 = R [THEN conjunct2, THEN conjunct2, THEN conjunct1]
    note R4 = R [THEN conjunct2, THEN conjunct2, THEN conjunct2, THEN conjunct1]
    note R5 = R [THEN conjunct2, THEN conjunct2, THEN conjunct2, THEN conjunct2]
    have q1: "ptbr s1 = q" using R5 q by (simp add: same_but_def)
    have po: "outer_ptes s1 p ! i = outer_ptes s p ! i" if "i \<noteq> i0" for i
      using R4 that by simp
    have qo: "outer_ptes s1 q ! i = outer_ptes s q ! i" if "i \<noteq> i0" for i
    proof (cases "q = p")
      case True then show ?thesis using po [OF that] by simp
    next
      case False then show ?thesis using same_but_other [OF R5 False] by simp
    qed
    have nn: "n = NF div NP - Suc i0" using Suc.hyps(2) by simp
    note IH = Suc.hyps(1) [OF nn step(3) q1]
    have I1: "peek junk s' p i ! j =
            (if Suc i0 \<le> i \<and> i < NF div NP \<and> outer_ptes s1 q ! i \<noteq> None \<and> j < NP
             then G (pte_at s1 q i j) (peek junk s1 p i ! j)
             else peek junk s1 p i ! j)" for i j
      using IH [THEN conjunct1, THEN spec, THEN spec, of i j] .
    have I2: "Suc i0 \<le> i \<and> i < NF div NP \<and> outer_ptes s1 q ! i \<noteq> None \<and> 0 < NP
                \<longrightarrow> outer_ptes s' p ! i \<noteq> None" for i
      using IH [THEN conjunct2, THEN conjunct1, THEN spec, of i] .
    have I3: "\<not> (Suc i0 \<le> i \<and> i < NF div NP \<and> outer_ptes s1 q ! i \<noteq> None)
                \<longrightarrow> outer_ptes s' p ! i = outer_ptes s1 p ! i" for i
      using IH [THEN conjunct2, THEN conjunct2, THEN conjunct1, THEN spec, of i] .
    note I4 = IH [THEN conjunct2, THEN conjunct2, THEN conjunct2]
    have e: "peek junk s' p i ! j =
            (if i0 \<le> i \<and> i < NF div NP \<and> outer_ptes s q ! i \<noteq> None \<and> j < NP
             then G (pte_at s q i j) (peek junk s p i ! j)
             else peek junk s p i ! j)" for i j
    proof (cases "i = i0")
      case True
      have "peek junk s' p i0 ! j = peek junk s1 p i0 ! j"
        unfolding I1 [of i0 j] by simp
      then show ?thesis unfolding True using R1 [of j] lt by simp
    next
      case False
      have a: "pte_at s1 q i j = pte_at s q i j"
        using qo [OF False] by (rule same_dir_reads)
      have b: "peek junk s1 p i = peek junk s p i"
        using po [OF False] by (rule same_dir_reads)
      have c: "(Suc i0 \<le> i) = (i0 \<le> i)" using False by arith
      show ?thesis unfolding I1 [of i j] a b c qo [OF False] ..
    qed
    have d: "i0 \<le> i \<and> i < NF div NP \<and> outer_ptes s q ! i \<noteq> None \<and> 0 < NP
                \<longrightarrow> outer_ptes s' p ! i \<noteq> None" for i
    proof (cases "i = i0")
      case True
      have "outer_ptes s' p ! i0 = outer_ptes s1 p ! i0" using I3 [of i0] by simp
      then show ?thesis unfolding True using R2 by simp
    next
      case False
      have c: "(Suc i0 \<le> i) = (i0 \<le> i)" using False by arith
      show ?thesis using I2 [of i] unfolding c qo [OF False] .
    qed
    have u: "\<not> (i0 \<le> i \<and> i < NF div NP \<and> outer_ptes s q ! i \<noteq> None)
                \<longrightarrow> outer_ptes s' p ! i = outer_ptes s p ! i" for i
    proof (cases "i = i0")
      case True
      have "outer_ptes s' p ! i0 = outer_ptes s1 p ! i0" using I3 [of i0] by simp
      then show ?thesis unfolding True using R3 lt by auto
    next
      case False
      have c: "(Suc i0 \<le> i) = (i0 \<le> i)" using False by arith
      show ?thesis using I3 [of i] unfolding c qo [OF False] po [OF False] .
    qed
    have sb: "same_but s s' p" using R5 I4 by (rule same_but_trans)
    show ?thesis
    proof (intro conjI allI)
      fix i j
      show "peek junk s' p i ! j =
            (if i0 \<le> i \<and> i < NF div NP \<and> outer_ptes s q ! i \<noteq> None \<and> j < NP
             then G (pte_at s q i j) (peek junk s p i ! j)
             else peek junk s p i ! j)" by (rule e)
    next
      fix i
      show "i0 \<le> i \<and> i < NF div NP \<and> outer_ptes s q ! i \<noteq> None \<and> 0 < NP
                \<longrightarrow> outer_ptes s' p ! i \<noteq> None" by (rule d)
    next
      fix i
      show "\<not> (i0 \<le> i \<and> i < NF div NP \<and> outer_ptes s q ! i \<noteq> None)
                \<longrightarrow> outer_ptes s' p ! i = outer_ptes s p ! i" by (rule u)
    qed (rule sb)
  qed
qed

section \<open>Claims about alloc\_page, free\_page and handle\_page\_fault\<close>

lemma ex_shared_reachable:
  "run 2 4 2 (boot 4 2) [Alloc 0 2, Alloc 1 1, Switch 99] = Inr ex_shared"
  by code_simp

lemma ex_shared_fault:
  "handle_page_fault 2 ex_shared 0 2 =
     Inr (\<lparr>mapcounts = [1, 2, 1, 0],
           heap = [\<lparr>pid = 0, pagetable =
                      [Some [\<lparr>valid = True, writable = True, pfn = 0, private' = 0\<rparr>,
                             \<lparr>valid = True, writable = False, pfn = 1, private' = 0\<rparr>], None]\<rparr>,
                   \<lparr>pid = 99, pagetable =
                      [Some [\<lparr>valid = True, writable = True, pfn = 2, private' = 1\<rparr>,
                             \<lparr>valid = True, writable = False, pfn = 1, private' = 0\<rparr>], None]\<rparr>],
           processes = [1], current = 1, ptbr = 1\<rparr>, True)"
  by code_simp

lemma ex_sole_reachable:
  "run 2 4 2 (boot 4 2) [Switch 1, Alloc 0 2, Switch 2, Fault 0 2, Switch 1] = Inr ex_sole"
  by code_simp

text \<open>
  Claim C4. Whenever some frame has a zero counter, \<open>alloc_page\<close> returns the
  lowest such frame \<open>g\<close>, leaves the entry of \<open>vpn\<close> valid with frame \<open>g\<close> (in a
  directory that now exists), writable exactly when bit 1 of \<open>rw\<close> is set, and adds one
  to the counter of \<open>g\<close>. The permission is the two-bit mask of the specification
  (\<open>rw < 4\<close>); the other hypotheses say that the accesses are inside the arrays.
\<close>

theorem alloc_page_lowest_free:
  assumes "ptbr s < length (heap s)"
    and "vpn div NP < length (outer_ptes s (ptbr s))"
    and "vpn mod NP < length (case outer_ptes s (ptbr s) ! (vpn div NP) of None \<Rightarrow> junk | Some d \<Rightarrow> d)"
    and "g < length (mapcounts s)" and "mapcounts s ! g = 0" and "\<forall>k<g. mapcounts s ! k \<noteq> 0"
    and "rw < 4"
  shows "\<exists>s'. alloc_page NP junk s vpn rw = Inr (s', g)
           \<and> outer_ptes s' (ptbr s) ! (vpn div NP) \<noteq> None
           \<and> valid (pte_at s' (ptbr s) (vpn div NP) (vpn mod NP))
           \<and> pfn (pte_at s' (ptbr s) (vpn div NP) (vpn mod NP)) = g
           \<and> writable (pte_at s' (ptbr s) (vpn div NP) (vpn mod NP)) = bit rw (1::nat)
           \<and> mapcounts s' = (mapcounts s)[g := mapcounts s ! g + 1]
           \<and> unat (mapcounts s' ! g) = unat (mapcounts s ! g) + 1"
proof -
  let ?a = "ptbr s" and ?i = "vpn div NP" and ?j = "vpn mod NP"
  define s1 where "s1 = (if outer_ptes s ?a ! ?i = None then set_dir s ?a ?i junk else s)"
  have a1: "ptbr s < length (heap s1)" and i1: "?i < length (outer_ptes s1 ?a)"
    using assms(1,2) by (simp_all add: s1_def outer_ptes_set_dir)
  have p1: "ptes s1 ?a ?i = (case outer_ptes s ?a ! ?i of None \<Rightarrow> junk | Some d \<Rightarrow> d)"
    using assms(1,2) by (auto simp: s1_def ptes_set_dir) (simp add: ptes_def)
  then have j1: "?j < length (ptes s1 ?a ?i)" using assms(3) by simp
  have m1: "mapcounts s1 = mapcounts s" by (simp add: s1_def)
  have ff: "first_free 0 (mapcounts s) = Inr g"
    using assms(4,5,6) by (intro first_free_least) auto
  have b: "bit rw (Suc 0) = (rw = 2 \<or> rw = 3)" using assms(7) by (rule bit1_small)
  show ?thesis
    using assms(1,2) a1 i1 j1 m1 ff b assms(4,5)
    by (simp add: alloc_page_def Let_def s1_def [symmetric] pte_at_upd_pte ptes_upd_pte
        outer_ptes_upd_pte)
qed

theorem alloc_page_lowest_free_witness:
  "\<exists>s'. alloc_page 2 [zero_pte, zero_pte] ex_shared 2 3 = Inr (s', 2)
      \<and> outer_ptes s' 1 ! 1 \<noteq> None
      \<and> valid (pte_at s' 1 1 0) \<and> pfn (pte_at s' 1 1 0) = 2 \<and> writable (pte_at s' 1 1 0)
      \<and> mapcounts s' = [2, 2, 1, 0]"
proof -
  have h1: "ptbr ex_shared < length (heap ex_shared)"
    by (simp add: ex_shared_def)
  have h2: "2 div 2 < length (outer_ptes ex_shared (ptbr ex_shared))"
    by (simp add: ex_shared_def outer_ptes_def)
  have h3: "2 mod 2 < length (case outer_ptes ex_shared (ptbr ex_shared) ! (2 div 2) of
                                None \<Rightarrow> [zero_pte, zero_pte] | Some d \<Rightarrow> d)"
    by (simp add: ex_shared_def outer_ptes_def)
  have h4: "2 < length (mapcounts ex_shared)" and h5: "mapcounts ex_shared ! 2 = 0"
    by (simp_all add: ex_shared_def)
  have h6: "\<forall>k<2. mapcounts ex_shared ! k \<noteq> 0"
    by (auto simp: ex_shared_def dest!: less_2_cases)
  have h7: "(3::nat) < 4" by simp
  have b: "bit (3::nat) (1::nat)" by (simp add: bit_iff_odd)
  have p: "ptbr ex_shared = 1" "mapcounts ex_shared = [2, 2, 0, 0]"
    by (simp_all add: ex_shared_def)
  from alloc_page_lowest_free [OF h1 h2 h3 h4 h5 h6 h7] obtain s' where
    "alloc_page 2 [zero_pte, zero_pte] ex_shared 2 3 = Inr (s', 2)"
    "outer_ptes s' (ptbr ex_shared) ! (2 div 2) \<noteq> None"
    "valid (pte_at s' (ptbr ex_shared) (2 div 2) (2 mod 2))"
    "pfn (pte_at s' (ptbr ex_shared) (2 div 2) (2 mod 2)) = 2"
    "writable (pte_at s' (ptbr ex_shared) (2 div 2) (2 mod 2)) = bit (3::nat) (1::nat)"
    "mapcounts s' = (mapcounts ex_shared)[2 := mapcounts ex_shared ! 2 + 1]"
    by blast
  then show ?thesis using b p by (intro exI [of _ s']) simp
qed

text \<open>
  Outside the two-bit mask the source's test \<^verbatim>\<open>rw == 2 || rw == 3\<close> is not bit 1: a
  permission of 6 leaves the entry read-only.
\<close>

lemma alloc_page_permission_6:
  "alloc_page 2 [zero_pte, zero_pte] (boot 4 2) 0 6 =
     Inr (\<lparr>mapcounts = [1, 0, 0, 0],
           heap = [\<lparr>pid = 0, pagetable =
                      [Some [\<lparr>valid = True, writable = False, pfn = 0, private' = 0\<rparr>, zero_pte],
                       None]\<rparr>],
           processes = [], current = 0, ptbr = 0\<rparr>, 0)"
  by code_simp

text \<open>
  Claim C5. When every counter is nonzero, \<open>alloc_page\<close> does not return at all (so it
  does not return the sentinel either): the scan \<open>first_free\<close> has no bound and runs off
  the end of \<^verbatim>\<open>mapcounts\<close>, and the \<^verbatim>\<open>return -1\<close> after the loop is never reached.
\<close>

theorem alloc_page_exhausted:
  assumes "\<forall>k<length (mapcounts s). mapcounts s ! k \<noteq> 0"
  shows "\<exists>f. alloc_page NP junk s vpn rw = Inl f"
proof -
  have "first_free 0 m = Inl OutOfBounds" if "m = mapcounts s" for m
    using assms that by (intro first_free_full) simp
  then show ?thesis
    by (simp add: alloc_page_def Let_def)
qed

theorem alloc_page_exhausted_witness:
  "alloc_page 2 [zero_pte, zero_pte] (ex_shared\<lparr>mapcounts := [2, 2, 1, 1]\<rparr>) 2 3 = Inl OutOfBounds"
proof -
  have h: "\<forall>k<length (mapcounts (ex_shared\<lparr>mapcounts := [2, 2, 1, 1]\<rparr>)).
             mapcounts (ex_shared\<lparr>mapcounts := [2, 2, 1, 1]\<rparr>) ! k \<noteq> 0"
  proof -
    have "list_all (\<lambda>x. x \<noteq> 0) [2, 2, 1, 1 :: 32 word]" by simp
    then show ?thesis by (simp add: list_all_length)
  qed
  have "alloc_page 2 [zero_pte, zero_pte] (ex_shared\<lparr>mapcounts := [2, 2, 1, 1]\<rparr>) 2 3 \<noteq> Inl NullPointer"
    by code_simp
  with alloc_page_exhausted [OF h, of 2 "[zero_pte, zero_pte]" 2 3] show ?thesis
    by (metis fault.exhaust)
qed

text \<open>
  Claim C7. A write fault on a valid, read-only, private entry whose frame has counter 1
  makes the entry writable and changes nothing else: the frame of the entry and all
  counters stay as they were, and the result is \<^verbatim>\<open>true\<close>.
\<close>

theorem cow_fault_sole_owner:
  assumes "pte_fault s (ptbr s) (vpn div NP) (vpn mod NP) = None"
    and "valid (pte_at s (ptbr s) (vpn div NP) (vpn mod NP))"
    and "\<not> writable (pte_at s (ptbr s) (vpn div NP) (vpn mod NP))"
    and "private' (pte_at s (ptbr s) (vpn div NP) (vpn mod NP)) = 1"
    and "rw = 2 \<or> rw = 3"
    and "pfn (pte_at s (ptbr s) (vpn div NP) (vpn mod NP)) < length (mapcounts s)"
    and "mapcounts s ! pfn (pte_at s (ptbr s) (vpn div NP) (vpn mod NP)) = 1"
  shows "\<exists>s'. handle_page_fault NP s vpn rw = Inr (s', True)
           \<and> pte_at s' (ptbr s) (vpn div NP) (vpn mod NP)
               = (pte_at s (ptbr s) (vpn div NP) (vpn mod NP))\<lparr>writable := True\<rparr>
           \<and> mapcounts s' = mapcounts s"
  using assms
  by (simp add: handle_page_fault_def Let_def pte_at_upd_pte_same)

theorem cow_fault_sole_owner_witness:
  "\<exists>s'. handle_page_fault 2 ex_sole 0 2 = Inr (s', True)
      \<and> pte_at s' 1 0 0 = \<lparr>valid = True, writable = True, pfn = 0, private' = 1\<rparr>
      \<and> mapcounts s' = [1, 1, 0, 0]"
proof -
  have e: "pte_at ex_sole (ptbr ex_sole) (0 div 2) (0 mod 2)
             = \<lparr>valid = True, writable = False, pfn = 0, private' = 1\<rparr>"
    by (simp add: ex_sole_def pte_at_def ptes_def outer_ptes_def)
  have h1: "pte_fault ex_sole (ptbr ex_sole) (0 div 2) (0 mod 2) = None"
    by (simp add: ex_sole_def pte_fault_def outer_ptes_def)
  have h2: "valid (pte_at ex_sole (ptbr ex_sole) (0 div 2) (0 mod 2))"
    and h3: "\<not> writable (pte_at ex_sole (ptbr ex_sole) (0 div 2) (0 mod 2))"
    and h4: "private' (pte_at ex_sole (ptbr ex_sole) (0 div 2) (0 mod 2)) = 1"
    and h6: "pfn (pte_at ex_sole (ptbr ex_sole) (0 div 2) (0 mod 2)) < length (mapcounts ex_sole)"
    and h7: "mapcounts ex_sole ! pfn (pte_at ex_sole (ptbr ex_sole) (0 div 2) (0 mod 2)) = 1"
    unfolding e by (simp_all add: ex_sole_def)
  have h5: "(2::nat) = 2 \<or> (2::nat) = 3" by simp
  have p: "ptbr ex_sole = 1" "mapcounts ex_sole = [1, 1, 0, 0]" by (simp_all add: ex_sole_def)
  show ?thesis
    using cow_fault_sole_owner [OF h1 h2 h3 h4 h5 h6 h7] e p by simp
qed



text \<open>
  Claim C9. \<open>free_page\<close> on a valid entry of the current process clears \<open>valid\<close>,
  \<open>writable\<close> and \<open>private\<close> of that entry and takes one (in \<^verbatim>\<open>unsigned int\<close>
  arithmetic) from the counter of the frame it held. No other counter, no other entry and
  no other process changes, so an entry of another process that maps the same frame stays
  valid.
\<close>

theorem free_page_valid:
  assumes "pte_fault s (ptbr s) (vpn div NP) (vpn mod NP) = None"
    and "valid (pte_at s (ptbr s) (vpn div NP) (vpn mod NP))"
    and "f = pfn (pte_at s (ptbr s) (vpn div NP) (vpn mod NP))"
    and "f < length (mapcounts s)"
  shows "\<exists>s'. free_page NP s vpn = Inr s'
           \<and> pte_at s' (ptbr s) (vpn div NP) (vpn mod NP)
               = (pte_at s (ptbr s) (vpn div NP) (vpn mod NP))
                   \<lparr>valid := False, writable := False, private' := 0\<rparr>
           \<and> mapcounts s' = (mapcounts s)[f := mapcounts s ! f - 1]
           \<and> (\<forall>a. a \<noteq> ptbr s \<longrightarrow> heap s' ! a = heap s ! a)
           \<and> (\<forall>a i j. (a, i, j) \<noteq> (ptbr s, vpn div NP, vpn mod NP)
                  \<longrightarrow> pte_at s' a i j = pte_at s a i j)"
proof -
  let ?a = "ptbr s" and ?i = "vpn div NP" and ?j = "vpn mod NP"
  let ?e = "pte_at s ?a ?i ?j"
  let ?s1 = "upd_pte s ?a ?i ?j (\<lambda>e. e\<lparr>valid := False\<rparr>)"
  let ?s2 = "upd_pte ?s1 ?a ?i ?j (\<lambda>e. e\<lparr>writable := False\<rparr>)"
  let ?s3 = "upd_pte ?s2 ?a ?i ?j (\<lambda>e. e\<lparr>private' := 0\<rparr>)"
  let ?s4 = "?s3\<lparr>mapcounts := (mapcounts s)[f := mapcounts s ! f - 1]\<rparr>"
  have p1: "pte_fault ?s1 ?a ?i ?j = None" using assms(1) by (rule pte_fault_upd_pte)
  have p2: "pte_fault ?s2 ?a ?i ?j = None" using p1 by (rule pte_fault_upd_pte)
  have at3: "pte_at ?s3 b k l =
      (if b = ?a \<and> k = ?i \<and> l = ?j then ?e\<lparr>valid := False, writable := False, private' := 0\<rparr>
       else pte_at s b k l)" for b k l
    by (simp add: pte_at_upd_pte_same [OF p2] pte_at_upd_pte_same [OF p1]
        pte_at_upd_pte_same [OF assms(1)])
  have f3: "pfn (pte_at ?s3 ?a ?i ?j) = f" using at3 [of ?a ?i ?j] assms(3) by simp
  have n: "\<not> length (mapcounts s) \<le> f" using assms(4) by simp
  have r: "free_page NP s vpn = Inr ?s4"
    unfolding free_page_def Let_def
    by (simp only: assms(1) option.case f3 upd_pte_fields n if_False)
  have h: "heap ?s4 ! b = heap s ! b" if "b \<noteq> ?a" for b
    using that by (simp add: heap_other_upd_pte)
  show ?thesis
    using r at3 h by (intro exI [of _ ?s4]) simp
qed

theorem free_page_valid_witness:
  "\<exists>s'. free_page 2 ex_shared 1 = Inr s'
      \<and> pte_at s' 1 0 1 = \<lparr>valid = False, writable = False, pfn = 1, private' = 0\<rparr>
      \<and> mapcounts s' = [2, 1, 0, 0]
      \<and> pte_at s' 0 0 1 = \<lparr>valid = True, writable = False, pfn = 1, private' = 0\<rparr>"
proof -
  have e: "pte_at ex_shared (ptbr ex_shared) (1 div 2) (1 mod 2)
             = \<lparr>valid = True, writable = False, pfn = 1, private' = 0\<rparr>"
    by (simp add: ex_shared_def pte_at_def ptes_def outer_ptes_def)
  have e0: "pte_at ex_shared 0 0 1 = \<lparr>valid = True, writable = False, pfn = 1, private' = 0\<rparr>"
    by (simp add: ex_shared_def pte_at_def ptes_def outer_ptes_def)
  have h1: "pte_fault ex_shared (ptbr ex_shared) (1 div 2) (1 mod 2) = None"
    by (simp add: ex_shared_def pte_fault_def outer_ptes_def)
  have h2: "valid (pte_at ex_shared (ptbr ex_shared) (1 div 2) (1 mod 2))"
    and h3: "1 = pfn (pte_at ex_shared (ptbr ex_shared) (1 div 2) (1 mod 2))"
    unfolding e by simp_all
  have h4: "1 < length (mapcounts ex_shared)" by (simp add: ex_shared_def)
  have p: "ptbr ex_shared = 1" "mapcounts ex_shared = [2, 2, 0, 0]" by (simp_all add: ex_shared_def)
  from free_page_valid [OF h1 h2 h3 h4] obtain s' where
    r: "free_page 2 ex_shared 1 = Inr s'"
    and a: "pte_at s' (ptbr ex_shared) (1 div 2) (1 mod 2)
              = (pte_at ex_shared (ptbr ex_shared) (1 div 2) (1 mod 2))
                  \<lparr>valid := False, writable := False, private' := 0\<rparr>"
    and m: "mapcounts s' = (mapcounts ex_shared)[1 := mapcounts ex_shared ! 1 - 1]"
    and o: "\<forall>a i j. (a, i, j) \<noteq> (ptbr ex_shared, 1 div 2, 1 mod 2)
               \<longrightarrow> pte_at s' a i j = pte_at ex_shared a i j"
    by blast
  have "pte_at s' 0 0 1 = pte_at ex_shared 0 0 1" using o p by simp
  then show ?thesis using r a m e e0 p by simp
qed

text \<open>
  Claim C10. \<open>handle_page_fault\<close> never clears the private flag. Whenever it returns,
  every entry of every process has the \<open>private\<close> and \<open>valid\<close> values it had before,
  every entry but the faulting one is unchanged, and so are \<^verbatim>\<open>ptbr\<close>, \<^verbatim>\<open>current\<close>
  and the ready queue: only \<open>writable\<close> and \<open>pfn\<close> of the faulting entry, and the
  counters, can differ.
\<close>

theorem handle_page_fault_keeps_private:
  assumes "handle_page_fault NP s vpn rw = Inr (s', b)"
  shows "private' (pte_at s' a i j) = private' (pte_at s a i j)
         \<and> valid (pte_at s' a i j) = valid (pte_at s a i j)
         \<and> ((a, i, j) \<noteq> (ptbr s, vpn div NP, vpn mod NP) \<longrightarrow> pte_at s' a i j = pte_at s a i j)
         \<and> ptbr s' = ptbr s \<and> current s' = current s \<and> processes s' = processes s"
proof -
  let ?a = "ptbr s" and ?i = "vpn div NP" and ?j = "vpn mod NP"
  let ?s1 = "upd_pte s ?a ?i ?j (\<lambda>e. e\<lparr>writable := True\<rparr>)"
  have pf: "pte_fault s ?a ?i ?j = None"
    using assms by (auto simp: handle_page_fault_def Let_def split: option.splits)
  have p1: "pte_fault (?s1\<lparr>mapcounts := m\<rparr>) ?a ?i ?j = None" for m
    using pte_fault_upd_pte [OF pf] by simp
  have "s' = s \<or> s' = ?s1
        \<or> (\<exists>m g m'. s' = (upd_pte (?s1\<lparr>mapcounts := m\<rparr>) ?a ?i ?j (\<lambda>e. e\<lparr>pfn := g\<rparr>))\<lparr>mapcounts := m'\<rparr>)"
    using assms pf
    by (auto simp: handle_page_fault_def Let_def split: if_splits sum.splits)
  then show ?thesis
  proof (elim disjE exE)
    assume "s' = s" then show ?thesis by simp
  next
    assume "s' = ?s1" then show ?thesis by (simp add: pte_at_upd_pte_same [OF pf])
  next
    fix m g m'
    assume "s' = (upd_pte (?s1\<lparr>mapcounts := m\<rparr>) ?a ?i ?j (\<lambda>e. e\<lparr>pfn := g\<rparr>))\<lparr>mapcounts := m'\<rparr>"
    then show ?thesis
      by (simp add: pte_at_upd_pte_same [OF p1] pte_at_upd_pte_same [OF pf])
  qed
qed

theorem handle_page_fault_keeps_private_witness:
  "\<exists>s'. handle_page_fault 2 ex_shared 0 2 = Inr (s', True)
      \<and> private' (pte_at s' 1 0 0) = 1 \<and> valid (pte_at s' 1 0 0)
      \<and> pte_at s' 0 0 0 = \<lparr>valid = True, writable = True, pfn = 0, private' = 0\<rparr>"
proof -
  have e: "pte_at ex_shared 1 0 0 = \<lparr>valid = True, writable = False, pfn = 0, private' = 1\<rparr>"
    and e0: "pte_at ex_shared 0 0 0 = \<lparr>valid = True, writable = True, pfn = 0, private' = 0\<rparr>"
    by (simp_all add: ex_shared_def pte_at_def ptes_def outer_ptes_def)
  have p: "ptbr ex_shared = 1" by (simp add: ex_shared_def)
  obtain s' where r: "handle_page_fault 2 ex_shared 0 2 = Inr (s', True)"
    using ex_shared_fault by blast
  from handle_page_fault_keeps_private [OF r, of 1 0 0]
    handle_page_fault_keeps_private [OF r, of 0 0 0] r e e0 p
  show ?thesis by simp
qed

section \<open>Claims about switch\_process\<close>

lemma ex_parent_reachable: "run 2 4 2 (boot 4 2) [Alloc 0 2, Alloc 1 1] = Inr ex_parent"
  by code_simp

lemma ex_parent_fork: "switch_process 2 4 2 (zero_dirs 2) ex_parent 99 = Inr ex_shared"
  by code_simp

lemma ex_two_reachable: "run 2 4 2 (boot 4 2) [Switch 1, Alloc 0 2, Switch 2] = Inr ex_two"
  by code_simp


lemma ex_pre_reachable: "run 2 4 2 (boot 4 2) [Switch 1, Switch 2, Alloc 0 3] = Inr ex_pre"
  by code_simp

lemma ex_pre_switch: "switch_process 2 4 2 (zero_dirs 2) ex_pre 1 = Inr ex_broken"
  by code_simp

lemma switch_process_fork_Inr:
  assumes "find (\<lambda>a. pid (heap s ! a) = n) (processes s) = None"
    and "switch_process NP NF NO junk s n = Inr s'"
    and "s1 = s\<lparr>heap := heap s @ [\<lparr>pid = n, pagetable = replicate NO None\<rparr>],
                 processes := processes s @ [length (heap s)]\<rparr>"
  obtains s2 where "walk_dirs (fork_pte junk) NP NF s1 (length (heap s)) 0 = Inr s2"
    and "s' = s2\<lparr>current := length (heap s), ptbr := length (heap s)\<rparr>"
  using assms by (auto simp: switch_process_def Let_def split: sum.splits)


lemma reads_current_ptbr [simp]:
  "outer_ptes (s\<lparr>current := c, ptbr := b\<rparr>) a = outer_ptes s a"
  "pte_at (s\<lparr>current := c, ptbr := b\<rparr>) a i j = pte_at s a i j"
  by (simp_all add: outer_ptes_def pte_at_def ptes_def)

text \<open>
  Claim C2, as stated, fails: the fork loops write only to the child. In the third step
  of the scenario of the specification the parent's entry for page 0 is writable before
  the fork and is still writable, with \<open>private = 0\<close>, after it.
\<close>

theorem fork_parent_unmarked_counterexample:
  "processes ex_parent = []
   \<and> switch_process 2 4 2 (zero_dirs 2) ex_parent 99 = Inr ex_shared
   \<and> writable (pte_at ex_parent 0 0 0)
   \<and> writable (pte_at ex_shared 0 0 0) \<and> private' (pte_at ex_shared 0 0 0) = 0"
  by code_simp

text \<open>
  Claim C2, amended. When \<open>switch_process\<close> forks and returns, the new process \<open>c\<close> is
  current, is at the tail of the ready queue, and every process that existed before
  (the parent among them) is exactly as it was. For every entry \<open>(i, j)\<close> of a directory
  the parent has and the loops walk (\<open>i < NF div NP\<close>), the child's entry ends with
  \<open>writable = False\<close>, with \<open>valid\<close> and \<open>pfn\<close> of the parent's entry, and with
  \<open>private = 1\<close> when the parent's entry was writable or had \<open>private = 1\<close>; otherwise
  the child's \<open>private\<close> is not written and is whatever the fresh directory held.
\<close>

theorem fork_marks_child_only:
  assumes nf: "find (\<lambda>a. pid (heap s ! a) = n) (processes s) = None"
    and r: "switch_process NP NF NO junk s n = Inr s'"
    and ql: "ptbr s < length (heap s)"
    and i: "i < NF div NP" and io: "i < NO" and j: "j < NP"
    and pd: "outer_ptes s (ptbr s) ! i \<noteq> None"
    and pe: "pe = pte_at s (ptbr s) i j"
    and c: "c = length (heap s)"
  shows "current s' = c \<and> ptbr s' = c \<and> processes s' = processes s @ [c]
         \<and> pid (heap s' ! c) = n
         \<and> (\<forall>a<length (heap s). heap s' ! a = heap s ! a)
         \<and> outer_ptes s' c ! i \<noteq> None
         \<and> pte_at s' c i j =
             (junk i ! j)\<lparr>private' := (if writable pe \<or> private' pe = 1 then 1 else private' (junk i ! j)),
                          valid := valid pe, pfn := pfn pe, writable := False\<rparr>"
proof -
  define s1 where "s1 = s\<lparr>heap := heap s @ [\<lparr>pid = n, pagetable = replicate NO None\<rparr>],
                 processes := processes s @ [length (heap s)]\<rparr>"
  from nf r s1_def obtain s2 where w: "walk_dirs (fork_pte junk) NP NF s1 c 0 = Inr s2"
    and s': "s' = s2\<lparr>current := c, ptbr := c\<rparr>"
    unfolding c by (rule switch_process_fork_Inr)
  let ?q = "ptbr s"
  have qp: "?q \<noteq> c" using ql c by simp
  have q1: "ptbr s1 = ?q" by (simp add: s1_def)
  have ok: "body_ok junk fork_entry (fork_pte junk) c ?q" using qp by (rule fork_pte_ok)
  note W = walk_dirs_entries [OF ok w q1]
  have oq: "outer_ptes s1 ?q = outer_ptes s ?q"
    using ql by (simp add: s1_def outer_ptes_def nth_append)
  have oc: "outer_ptes s1 c ! i = None"
    using io by (simp add: s1_def outer_ptes_def c)
  have pk1: "peek junk s1 c i = junk i" using oc by (simp add: peek_def)
  have rq: "pte_at s1 ?q i j = pe" unfolding pe using oq by (rule pte_at_other)
  have cond: "0 \<le> i \<and> i < NF div NP \<and> outer_ptes s1 ?q ! i \<noteq> None \<and> j < NP"
    using i j pd oq by simp
  have e: "peek junk s2 c i ! j = fork_entry pe (junk i ! j)"
    using W [THEN conjunct1, THEN spec, THEN spec, of i j] cond rq pk1 by simp
  have d: "outer_ptes s2 c ! i \<noteq> None"
    using W [THEN conjunct2, THEN conjunct1, THEN spec, of i] cond j by simp
  have sb: "same_but s1 s2 c" using W [THEN conjunct2, THEN conjunct2, THEN conjunct2] .
  have "pte_at s2 c i j = fork_entry pe (junk i ! j)"
    using pte_at_peek [OF d, of j junk] e by simp
  then have E: "pte_at s' c i j =
             (junk i ! j)\<lparr>private' := (if writable pe \<or> private' pe = 1 then 1 else private' (junk i ! j)),
                          valid := valid pe, pfn := pfn pe, writable := False\<rparr>"
    by (simp add: s' fork_entry_def)
  have h: "heap s' ! a = heap s ! a" if "a < length (heap s)" for a
  proof -
    have "a \<noteq> c" using that c by simp
    then have "heap s2 ! a = heap s1 ! a" using sb by (simp add: same_but_def)
    then show ?thesis using that by (simp add: s' s1_def nth_append)
  qed
  have pc: "pid (heap s' ! c) = n"
    using sb by (simp add: same_but_def s' s1_def c)
  have pr: "processes s' = processes s @ [c]"
    using sb by (simp add: same_but_def s' s1_def c)
  show ?thesis using E h pc pr d by (simp add: s')
qed

theorem fork_marks_child_only_witness:
  "current ex_shared = 1 \<and> ptbr ex_shared = 1 \<and> processes ex_shared = [1]
   \<and> pid (heap ex_shared ! 1) = 99
   \<and> heap ex_shared ! 0 = heap ex_parent ! 0
   \<and> pte_at ex_shared 1 0 0 = \<lparr>valid = True, writable = False, pfn = 0, private' = 1\<rparr>"
proof -
  have nf: "find (\<lambda>a. pid (heap ex_parent ! a) = 99) (processes ex_parent) = None"
    by (simp add: ex_parent_def)
  have ql: "ptbr ex_parent < length (heap ex_parent)" by (simp add: ex_parent_def)
  have i: "(0::nat) < 4 div 2" and io: "(0::nat) < 2" by simp_all
  have pd: "outer_ptes ex_parent (ptbr ex_parent) ! 0 \<noteq> None"
    by (simp add: ex_parent_def outer_ptes_def)
  have c: "1 = length (heap ex_parent)" by (simp add: ex_parent_def)
  have pe: "pte_at ex_parent (ptbr ex_parent) 0 0
              = \<lparr>valid = True, writable = True, pfn = 0, private' = 0\<rparr>"
    by (simp add: ex_parent_def pte_at_def ptes_def outer_ptes_def)
  have z: "zero_dirs 2 0 ! 0 = zero_pte" by (simp add: zero_dirs_def zero_dir_def)
  have p: "processes ex_parent = []" by (simp add: ex_parent_def)
  from fork_marks_child_only [OF nf ex_parent_fork ql i io io pd refl c]
  show ?thesis unfolding pe z using c p by (simp add: zero_pte_def)
qed




text \<open>
  Claim C1 does not hold of the code. In the branch of \<open>switch_process\<close> for a pid that
  is in the ready queue, an invalid entry of the target receives \<open>valid\<close> and \<open>pfn\<close> of the
  previously running process without any change of \<^verbatim>\<open>mapcounts\<close> (the fork branch does
  increment). After \<open>[Switch 1, Switch 2, Alloc 0 3]\<close> every counter is exact; the next
  \<open>Switch 1\<close> leaves two valid entries for frame 0 and a counter of 1.
\<close>

theorem switch_breaks_mapcounts:
  "run 2 4 2 (boot 4 2) [Switch 1, Switch 2, Alloc 0 3] = Inr ex_pre
   \<and> mapcounts_exact ex_pre
   \<and> switch_process 2 4 2 (zero_dirs 2) ex_pre 1 = Inr ex_broken
   \<and> \<not> mapcounts_exact ex_broken
   \<and> mapcounts ex_broken ! 0 = 1 \<and> nr_mappings ex_broken 0 = 2"
  by code_simp

lemma switch_breaks_mapcounts_16_128:
  "case run 16 128 16 (boot 128 16) [Switch 1, Switch 2, Alloc 0 3, Switch 1] of
     Inl _ \<Rightarrow> False
   | Inr s \<Rightarrow> \<not> mapcounts_exact s \<and> mapcounts s ! 0 = 1 \<and> nr_mappings s 0 = 2"
  by code_simp

text \<open>
  Claim C6 does not hold of the code. \<open>handle_page_fault\<close> reads the entry through
  \<^verbatim>\<open>ptbr->outer_ptes[pd_index]\<close> without testing it: when the directory is absent the
  call does not return \<^verbatim>\<open>false\<close>, it dereferences \<^verbatim>\<open>NULL\<close>.
\<close>

theorem handle_page_fault_absent_directory:
  assumes "ptbr s < length (heap s)"
    and "vpn div NP < length (outer_ptes s (ptbr s))"
    and "outer_ptes s (ptbr s) ! (vpn div NP) = None"
  shows "handle_page_fault NP s vpn rw = Inl NullPointer"
  using assms by (simp add: handle_page_fault_def pte_fault_def)

theorem handle_page_fault_absent_directory_witness:
  "handle_page_fault 2 (boot 4 2) 0 2 = Inl NullPointer"
proof -
  have "ptbr (boot 4 2) < length (heap (boot 4 2))"
    and "0 div 2 < length (outer_ptes (boot 4 2) (ptbr (boot 4 2)))"
    and "outer_ptes (boot 4 2) (ptbr (boot 4 2)) ! (0 div 2) = None"
    by (simp_all add: boot_def outer_ptes_def)
  then show ?thesis by (rule handle_page_fault_absent_directory)
qed

text \<open>
  The condition of \<open>handle_page_fault\<close> does not read \<open>valid\<close> either: on an entry that
  is invalid, read-only and has \<open>private = 1\<close>, a write access is answered \<^verbatim>\<open>true\<close>.
\<close>

lemma handle_page_fault_ignores_valid:
  assumes "pte_fault s (ptbr s) (vpn div NP) (vpn mod NP) = None"
    and "\<not> writable (pte_at s (ptbr s) (vpn div NP) (vpn mod NP))"
    and "private' (pte_at s (ptbr s) (vpn div NP) (vpn mod NP)) = 1"
    and "rw = 2 \<or> rw = 3"
    and "pfn (pte_at s (ptbr s) (vpn div NP) (vpn mod NP)) < length (mapcounts s)"
    and "\<not> 1 < mapcounts s ! pfn (pte_at s (ptbr s) (vpn div NP) (vpn mod NP))"
  shows "handle_page_fault NP s vpn rw
           = Inr (upd_pte s (ptbr s) (vpn div NP) (vpn mod NP) (\<lambda>e. e\<lparr>writable := True\<rparr>), True)"
proof -
  let ?e = "pte_at s (ptbr s) (vpn div NP) (vpn mod NP)"
  let ?s1 = "upd_pte s (ptbr s) (vpn div NP) (vpn mod NP) (\<lambda>e. e\<lparr>writable := True\<rparr>)"
  have e1: "pfn (pte_at ?s1 (ptbr s) (vpn div NP) (vpn mod NP)) = pfn ?e"
    using assms(1) by (simp add: pte_at_upd_pte_same)
  have c: "\<not> writable ?e \<and> (rw = 2 \<or> rw = 3) \<and> private' ?e = 1"
    using assms(2,3,4) by simp
  have n: "\<not> length (mapcounts s) \<le> pfn ?e" using assms(5) by simp
  show ?thesis
    unfolding handle_page_fault_def Let_def
    by (simp only: assms(1) option.case c if_True e1 upd_pte_fields n assms(6) if_False)
      simp
qed

end
